(* ===== verification/V3_Prelude.thy ===== *)
theory V3_Prelude
  imports "HOL-Library.Word"
begin

text \<open>
  Shared vocabulary of the Palacios development: the C integer types of
  \<^verbatim>\<open>vmm_types.h\<close> as words of the 64-bit build, C bit-fields as ranges of bits of a word,
  the byte-addressed host memory with little-endian 32-bit accesses, and the generic facts
  on lists that several components use.
\<close>

unbundle bit_operations_syntax

named_theorems bf_simps \<open>reading a bit-field after a bit-field write\<close>
named_theorems mem_simps \<open>reading host memory after a write\<close>

section \<open>C integer types\<close>

type_synonym uchar_t = "8 word"
type_synonym ushort_t = "16 word"
type_synonym uint_t = "32 word"
type_synonym ullong_t = "64 word"
type_synonym addr_t = "64 word"
type_synonym v3_reg_t = "64 word"

text \<open>Status codes: the functions of the monitor return the C \<open>int\<close> 0 or -1.\<close>

abbreviation V3_OK :: int where "V3_OK \<equiv> 0"
abbreviation V3_ERR :: int where "V3_ERR \<equiv> -1"

section \<open>Bit-fields\<close>

text \<open>
  \<open>bf_get lo n w\<close> reads the \<open>n\<close>-bit field that starts at bit \<open>lo\<close> of \<open>w\<close> and
  \<open>bf_set lo n v w\<close> overwrites it with the low \<open>n\<close> bits of \<open>v\<close>, the way the compiler lays
  a C bit-field out from the least significant bit.
\<close>

definition bf_get :: "nat \<Rightarrow> nat \<Rightarrow> 'a::len word \<Rightarrow> 'a word" where
  "bf_get lo n w = take_bit n (drop_bit lo w)"

definition bf_set :: "nat \<Rightarrow> nat \<Rightarrow> 'a::len word \<Rightarrow> 'a word \<Rightarrow> 'a word" where
  "bf_set lo n v w = (w AND NOT (push_bit lo (mask n))) OR push_bit lo (take_bit n v)"

definition bf_flag :: "nat \<Rightarrow> 'a::len word \<Rightarrow> bool" where
  "bf_flag i w = bit w i"

definition bf_put :: "nat \<Rightarrow> bool \<Rightarrow> 'a::len word \<Rightarrow> 'a word" where
  "bf_put i b w = (if b then set_bit i w else unset_bit i w)"

lemma bit_bf_get:
  "bit (bf_get lo n w) i \<longleftrightarrow> i < n \<and> bit w (lo + i)"
  for w :: "'a::len word"
  by (auto simp: bf_get_def bit_simps dest: bit_imp_le_length)

lemma bit_bf_set:
  "bit (bf_set lo n v w) i \<longleftrightarrow>
     (if lo \<le> i \<and> i < lo + n then i < LENGTH('a) \<and> bit v (i - lo) else bit w i)"
  for w :: "'a::len word"
  by (auto simp: bf_set_def bit_simps dest: bit_imp_le_length)

lemma bit_bf_put:
  "bit (bf_put i b w) j \<longleftrightarrow> (if i = j then j < LENGTH('a) \<and> b else bit w j)"
  for w :: "'a::len word"
  by (auto simp: bf_put_def bit_simps dest: bit_imp_le_length)

lemma bf_get_set_same:
  fixes w :: "'a::len word"
  assumes "lo + n \<le> LENGTH('a)"
  shows "bf_get lo n (bf_set lo n v w) = take_bit n v"
  using assms by (intro bit_word_eqI) (auto simp: bit_bf_get bit_bf_set bit_take_bit_iff)

lemma bf_get_set_other:
  fixes w :: "'a::len word"
  assumes "lo + n \<le> lo' \<or> lo' + n' \<le> lo"
  shows "bf_get lo n (bf_set lo' n' v w) = bf_get lo n w"
  using assms by (intro bit_word_eqI) (auto simp: bit_bf_get bit_bf_set)

lemma bf_get_put_other:
  fixes w :: "'a::len word"
  assumes "i < lo \<or> lo + n \<le> i"
  shows "bf_get lo n (bf_put i b w) = bf_get lo n w"
  using assms by (intro bit_word_eqI) (auto simp: bit_bf_get bit_bf_put)

lemma bf_flag_put:
  "bf_flag i (bf_put j b w) = (if i = j then i < LENGTH('a) \<and> b else bf_flag i w)"
  for w :: "'a::len word"
  by (auto simp: bf_flag_def bit_bf_put)

lemma bf_flag_set_other:
  fixes w :: "'a::len word"
  assumes "i < lo \<or> lo + n \<le> i"
  shows "bf_flag i (bf_set lo n v w) = bf_flag i w"
  using assms by (auto simp: bf_flag_def bit_bf_set)

lemma bf_flag_0 [simp]: "bf_flag i 0 = False"
  by (simp add: bf_flag_def)

lemma bf_get_0 [simp]: "bf_get lo n 0 = 0"
  by (simp add: bf_get_def)

lemmas bf_laws [bf_simps] =
  bf_get_set_same bf_get_set_other bf_get_put_other bf_flag_put bf_flag_set_other

section \<open>Host memory\<close>

text \<open>
  Host virtual memory as the monitor reads and writes it: one byte per address. A page
  table entry is a 32-bit little-endian word at a byte address.
\<close>

type_synonym mem = "addr_t \<Rightarrow> uchar_t"

definition load32 :: "mem \<Rightarrow> addr_t \<Rightarrow> uint_t" where
  "load32 m a = ucast (m a) OR push_bit 8 (ucast (m (a + 1)))
     OR push_bit 16 (ucast (m (a + 2))) OR push_bit 24 (ucast (m (a + 3)))"

definition store32 :: "mem \<Rightarrow> addr_t \<Rightarrow> uint_t \<Rightarrow> mem" where
  "store32 m a v = m(a := ucast v, a + 1 := ucast (drop_bit 8 v),
     a + 2 := ucast (drop_bit 16 v), a + 3 := ucast (drop_bit 24 v))"

definition load64 :: "mem \<Rightarrow> addr_t \<Rightarrow> ullong_t" where
  "load64 m a = ucast (load32 m a) OR push_bit 32 (ucast (load32 m (a + 4)))"

text \<open>The four bytes of a word stored at \<open>a\<close> do not reach \<open>b\<close>'s word.\<close>

definition disjoint32 :: "addr_t \<Rightarrow> addr_t \<Rightarrow> bool" where
  "disjoint32 a b \<longleftrightarrow> 4 \<le> unat (b - a) \<and> 4 \<le> unat (a - b)"

lemma addr_offsets_distinct:
  "a + 1 \<noteq> a" "a + 2 \<noteq> a" "a + 3 \<noteq> a" "a + 2 \<noteq> a + 1" "a + 3 \<noteq> a + 1" "a + 3 \<noteq> a + 2"
  for a :: addr_t
  by simp_all

lemma load32_store32_same [mem_simps]: "load32 (store32 m a v) a = v"
proof (rule bit_word_eqI)
  fix n assume "n < LENGTH(32)"
  then show "bit (load32 (store32 m a v) a) n = bit v n"
    by (cases "n < 8"; cases "n < 16"; cases "n < 24")
      (auto simp: load32_def store32_def bit_simps addr_offsets_distinct)
qed

lemma load32_store32_other [mem_simps]:
  assumes "disjoint32 a b"
  shows "load32 (store32 m a v) b = load32 m b"
proof -
  have ne: "b + of_nat i \<noteq> a + of_nat j" if "i < 4" "j < 4" for i j
  proof
    assume eq: "b + of_nat i = a + of_nat j"
    show False
    proof (cases "i \<le> j")
      case True
      then have "b - a = (of_nat (j - i) :: addr_t)"
        using eq by (simp add: of_nat_diff algebra_simps)
      then have "unat (b - a) = j - i"
        using that by (simp add: unat_of_nat)
      then show False using assms that by (auto simp: disjoint32_def)
    next
      case False
      then have "a - b = (of_nat (i - j) :: addr_t)"
        using eq by (simp add: of_nat_diff algebra_simps)
      then have "unat (a - b) = i - j"
        using that by (simp add: unat_of_nat)
      then show False using assms that by (auto simp: disjoint32_def)
    qed
  qed
  have "store32 m a v (b + of_nat i) = m (b + of_nat i)" if "i < 4" for i
    using ne[OF that, of 0] ne[OF that, of 1] ne[OF that, of 2] ne[OF that, of 3]
    by (simp add: store32_def)
  from this[of 0] this[of 1] this[of 2] this[of 3]
  show ?thesis by (simp add: load32_def)
qed

lemma disjoint32_sym: "disjoint32 a b = disjoint32 b a"
  by (auto simp: disjoint32_def)


section \<open>Widths\<close>

lemma unat_lt8: "unat w < 256" for w :: uchar_t
  using unsigned_less[where w = w and 'a = nat] by simp

lemma unat_lt16: "unat w < 65536" for w :: ushort_t
  using unsigned_less[where w = w and 'a = nat] by simp

lemma unat_lt32: "unat w < 4294967296" for w :: uint_t
  using unsigned_less[where w = w and 'a = nat] by simp

lemma unat_lt64: "unat w < 18446744073709551616" for w :: addr_t
  using unsigned_less[where w = w and 'a = nat] by simp


lemma unat_of_nat64: "n < 2 ^ 64 \<Longrightarrow> unat (of_nat n :: addr_t) = n"
  by (simp add: unat_of_nat)

lemma unat_ucast_up: "LENGTH('a) \<le> LENGTH('b) \<Longrightarrow> unat (ucast w :: 'b::len word) = unat w" for w :: "'a::len word"
proof -
  assume "LENGTH('a) \<le> LENGTH('b)"
  then have "unat w < 2 ^ LENGTH('b)"
    using unsigned_less[where w = w and 'a = nat] by (meson less_le_trans one_le_numeral power_increasing)
  then show ?thesis by (simp add: unsigned_ucast_eq take_bit_nat_eq_self)
qed

lemma ucast_up_inj: "LENGTH('a) \<le> LENGTH('b) \<Longrightarrow> (ucast v :: 'b::len word) = ucast w \<longleftrightarrow> v = w" for v w :: "'a::len word"
  using unat_ucast_up[where w = v and 'b = 'b] unat_ucast_up[where w = w and 'b = 'b]
  by (metis word_unat_eq_iff)


lemma ucast_up_down: "LENGTH('a) \<le> LENGTH('b) \<Longrightarrow> ucast (ucast w :: 'b::len word) = w" for w :: "'a::len word"
  by (rule bit_word_eqI) (auto simp: bit_simps)


lemma unat_bf_get: "unat (bf_get lo n w) = unat w div 2 ^ lo mod 2 ^ n" for w :: "'a::len word"
  unfolding bf_get_def unsigned_take_bit_eq unsigned_drop_bit_eq
  by (simp add: take_bit_eq_mod drop_bit_eq_div)

lemma unat_drop_bit: "unat (drop_bit n w) = unat w div 2 ^ n" for w :: "'a::len word"
  by (subst unat_drop_bit_eq) (rule drop_bit_eq_div)

lemma and_mask_take_bit:
  "w AND 0x3ff = take_bit 10 w" "w AND 0xfff = take_bit 12 w" "w AND 0x3fffff = take_bit 22 w" for w :: "'a::len word"
  by (simp_all add: take_bit_eq_mask mask_eq_exp_minus_1)

text \<open>A converted signed 32-bit pattern: unchanged below 2 GB, extended with ones from 2 GB on.\<close>

lemma top_bit_iff: "bit w 31 \<longleftrightarrow> 2 ^ 31 \<le> unat w" for w :: uint_t
proof -
  have "bit w 31 \<longleftrightarrow> bit (unat w) 31" by (simp add: bit_unsigned_iff)
  also have "\<dots> \<longleftrightarrow> odd (unat w div 2 ^ 31)" by (simp add: bit_iff_odd)
  also have "\<dots> \<longleftrightarrow> 2 ^ 31 \<le> unat w"
  proof (cases "2 ^ 31 \<le> unat w")
    case True
    then have "unat w div 2 ^ 31 = 1" using unat_lt32[of w] by (simp add: div_nat_eqI)
    then show ?thesis using True by simp
  qed simp
  finally show ?thesis .
qed

lemma unat_scast_low:
  fixes w :: uint_t
  assumes "unat w < 2 ^ 31"
  shows "(scast w :: addr_t) = ucast w" "unat (scast w :: addr_t) = unat w"
proof -
  have "\<not> bit w 31" using assms by (simp add: top_bit_iff)
  then have lt: "n < 31" if "bit w n" for n
    using that bit_imp_le_length[OF that] by (cases "n = 31") auto
  then show "(scast w :: addr_t) = ucast w"
    by (intro bit_word_eqI) (auto simp: bit_simps min_def, meson leD lt)
  then show "unat (scast w :: addr_t) = unat w" by (simp add: unat_ucast_up)
qed

lemma bit_scast_high:
  fixes w :: uint_t
  assumes "2 ^ 31 \<le> unat w" "32 \<le> n" "n < 64"
  shows "bit (scast w :: addr_t) n"
  using assms top_bit_iff[of w] by (auto simp: bit_simps min_def)

end
