(* ===== verification/V3_List.thy ===== *)
theory V3_List
  imports V3_Prelude
begin

text \<open>
  The intrusive circular doubly linked lists of \<^verbatim>\<open>include/palacios/vmm_list.h\<close>, on an
  explicit heap of \<open>list_head\<close> nodes. Every pointer write of the C code is one field update,
  in the order of the source. \<open>dlist h head xs\<close> says that the ring at \<open>head\<close> holds exactly
  the nodes \<open>xs\<close>; the lemmas show what each operation does to \<open>xs\<close>, and that it leaves every
  disjoint ring alone.
\<close>

section \<open>Heap and operations\<close>

record list_heap =
  lh_next :: "addr_t \<Rightarrow> addr_t"
  lh_prev :: "addr_t \<Rightarrow> addr_t"

definition LIST_POISON1 :: addr_t where "LIST_POISON1 = 0x00100100"
definition LIST_POISON2 :: addr_t where "LIST_POISON2 = 0x00200200"

definition set_next :: "addr_t \<Rightarrow> addr_t \<Rightarrow> list_heap \<Rightarrow> list_heap" where
  "set_next p v h = h\<lparr>lh_next := (lh_next h)(p := v)\<rparr>"

definition set_prev :: "addr_t \<Rightarrow> addr_t \<Rightarrow> list_heap \<Rightarrow> list_heap" where
  "set_prev p v h = h\<lparr>lh_prev := (lh_prev h)(p := v)\<rparr>"

definition INIT_LIST_HEAD :: "addr_t \<Rightarrow> list_heap \<Rightarrow> list_heap" where
  "INIT_LIST_HEAD l h = set_prev l l (set_next l l h)"

definition list_add_between :: "addr_t \<Rightarrow> addr_t \<Rightarrow> addr_t \<Rightarrow> list_heap \<Rightarrow> list_heap" where
  "list_add_between new prev nxt h =
     (let h1 = set_prev nxt new h;
          h2 = set_next new nxt h1;
          h3 = set_prev new prev h2
      in set_next prev new h3)"

definition list_add :: "addr_t \<Rightarrow> addr_t \<Rightarrow> list_heap \<Rightarrow> list_heap" where
  "list_add new head h = list_add_between new head (lh_next h head) h"

definition list_add_tail :: "addr_t \<Rightarrow> addr_t \<Rightarrow> list_heap \<Rightarrow> list_heap" where
  "list_add_tail new head h = list_add_between new (lh_prev h head) head h"

definition list_del_between :: "addr_t \<Rightarrow> addr_t \<Rightarrow> list_heap \<Rightarrow> list_heap" where
  "list_del_between prev nxt h = set_next prev nxt (set_prev nxt prev h)"

definition list_del :: "addr_t \<Rightarrow> list_heap \<Rightarrow> list_heap" where
  "list_del entry h =
     (let h1 = list_del_between (lh_prev h entry) (lh_next h entry) h;
          h2 = set_next entry LIST_POISON1 h1
      in set_prev entry LIST_POISON2 h2)"

definition list_del_init :: "addr_t \<Rightarrow> list_heap \<Rightarrow> list_heap" where
  "list_del_init entry h =
     INIT_LIST_HEAD entry (list_del_between (lh_prev h entry) (lh_next h entry) h)"

definition list_move :: "addr_t \<Rightarrow> addr_t \<Rightarrow> list_heap \<Rightarrow> list_heap" where
  "list_move l head h = list_add l head (list_del_between (lh_prev h l) (lh_next h l) h)"

definition list_move_tail :: "addr_t \<Rightarrow> addr_t \<Rightarrow> list_heap \<Rightarrow> list_heap" where
  "list_move_tail l head h =
     list_add_tail l head (list_del_between (lh_prev h l) (lh_next h l) h)"

definition list_empty :: "addr_t \<Rightarrow> list_heap \<Rightarrow> bool" where
  "list_empty head h \<longleftrightarrow> lh_next h head = head"

text \<open>
  \<open>list_for_each\<close> walks \<open>next\<close> from \<open>head->next\<close> until it is back at \<open>head\<close>. On a broken ring
  the loop does not end, so the walk is a partial function.
\<close>

partial_function (option) list_walk :: "list_heap \<Rightarrow> addr_t \<Rightarrow> addr_t \<Rightarrow> addr_t list option"
  where
  "list_walk h head pos =
     (if pos = head then Some []
      else Option.bind (list_walk h head (lh_next h pos)) (\<lambda>ps. Some (pos # ps)))"

definition list_for_each :: "list_heap \<Rightarrow> addr_t \<Rightarrow> addr_t list option" where
  "list_for_each h head = list_walk h head (lh_next h head)"

section \<open>Well-formed rings\<close>

fun dseg :: "list_heap \<Rightarrow> addr_t \<Rightarrow> addr_t list \<Rightarrow> addr_t \<Rightarrow> bool" where
  "dseg h a [] b \<longleftrightarrow> lh_next h a = b \<and> lh_prev h b = a"
| "dseg h a (x # xs) b \<longleftrightarrow> lh_next h a = x \<and> lh_prev h x = a \<and> dseg h x xs b"

definition dlist :: "list_heap \<Rightarrow> addr_t \<Rightarrow> addr_t list \<Rightarrow> bool" where
  "dlist h head xs \<longleftrightarrow> distinct (head # xs) \<and> dseg h head xs head"

lemmas heap_write_defs = set_next_def set_prev_def list_add_between_def list_del_between_def Let_def

lemma dseg_append:
  "dseg h a (xs @ y # ys) b \<longleftrightarrow> dseg h a xs y \<and> dseg h y ys b"
  by (induction xs arbitrary: a) auto

lemma dseg_frame:
  assumes "\<And>p. p \<in> set (a # xs) \<Longrightarrow> lh_next h' p = lh_next h p"
    and "\<And>p. p \<in> set (xs @ [b]) \<Longrightarrow> lh_prev h' p = lh_prev h p"
  shows "dseg h' a xs b = dseg h a xs b"
  using assms by (induction xs arbitrary: a) auto

lemma dseg_first: "dseg h a xs b \<Longrightarrow> lh_next h a = hd (xs @ [b])"
  by (cases xs) auto

lemma dseg_last: "dseg h a xs b \<Longrightarrow> lh_prev h b = last (a # xs)"
  by (induction xs arbitrary: a) auto

lemma dlist_next: "dlist h head xs \<Longrightarrow> lh_next h head = hd (xs @ [head])"
  by (auto simp: dlist_def dest: dseg_first)

lemma dlist_prev: "dlist h head xs \<Longrightarrow> lh_prev h head = last (head # xs)"
  by (auto simp: dlist_def dest: dseg_last)

lemma dlist_init: "dlist (INIT_LIST_HEAD l h) l []"
  by (simp add: dlist_def INIT_LIST_HEAD_def heap_write_defs)

lemma dlist_empty_iff: "dlist h head xs \<Longrightarrow> list_empty head h \<longleftrightarrow> xs = []"
  by (cases xs) (auto simp: list_empty_def dlist_def)

text \<open>Both insertions splice a node between two neighbours of the ring.\<close>

lemma dseg_splice:
  assumes "dseg h a (xs @ ys) b"
    and "distinct (a # xs @ ys)" "b = a \<or> b \<notin> set (a # xs @ ys)"
    and "new \<notin> set (a # b # xs @ ys)"
  shows "dseg (list_add_between new (last (a # xs)) (hd (ys @ [b])) h) a (xs @ new # ys) b"
proof -
  let ?p = "last (a # xs)" and ?n = "hd (ys @ [b])"
  let ?h = "list_add_between new ?p ?n h"
  have nx: "lh_next ?h = (lh_next h)(new := ?n, ?p := new)"
    and pv: "lh_prev ?h = (lh_prev h)(?n := new, new := ?p)"
    by (auto simp: heap_write_defs)
  show ?thesis
  proof (cases xs rule: rev_cases)
    case Nil
    show ?thesis
    proof (cases ys)
      case Nil
      with \<open>xs = []\<close> nx pv assms(4) show ?thesis by auto
    next
      case (Cons y ys')
      with \<open>xs = []\<close> assms(1) have "dseg h y ys' b" by simp
      moreover have "dseg ?h y ys' b = dseg h y ys' b"
        by (rule dseg_frame) (use nx pv \<open>xs = []\<close> Cons assms(2-4) in auto)
      ultimately show ?thesis using \<open>xs = []\<close> Cons nx pv assms(2-4) by auto
    qed
  next
    case (snoc xs' x)
    show ?thesis
    proof (cases ys)
      case Nil
      with snoc assms(1) have "dseg h a xs' x" by (simp add: dseg_append)
      moreover have "dseg ?h a xs' x = dseg h a xs' x"
        by (rule dseg_frame) (use nx pv snoc Nil assms(2-4) in auto)
      ultimately show ?thesis using snoc Nil nx pv assms(2-4) by (auto simp: dseg_append)
    next
      case (Cons y ys')
      with snoc assms(1) have "dseg h a xs' x" "dseg h y ys' b" by (simp_all add: dseg_append)
      moreover have "dseg ?h a xs' x = dseg h a xs' x"
        by (rule dseg_frame) (use nx pv snoc Cons assms(2-4) in auto)
      moreover have "dseg ?h y ys' b = dseg h y ys' b"
        by (rule dseg_frame) (use nx pv snoc Cons assms(2-4) in auto)
      ultimately show ?thesis using snoc Cons nx pv assms(2-4) by (auto simp: dseg_append)
    qed
  qed
qed

lemma dlist_add:
  assumes "dlist h head xs" "new \<notin> set (head # xs)"
  shows "dlist (list_add new head h) head (new # xs)"
  using assms dseg_splice[of h head "[]" xs head new] dlist_next[OF assms(1)]
  by (auto simp: dlist_def list_add_def)

lemma dlist_add_tail:
  assumes "dlist h head xs" "new \<notin> set (head # xs)"
  shows "dlist (list_add_tail new head h) head (xs @ [new])"
  using assms dseg_splice[of h head xs "[]" head new] dlist_prev[OF assms(1)]
  by (auto simp: dlist_def list_add_tail_def)

text \<open>Deletion reads the neighbours from the node and joins them.\<close>

lemma dseg_unsplice:
  assumes "dseg h a (xs @ e # ys) b"
    and "distinct (a # xs @ e # ys)" "b = a \<or> b \<notin> set (a # xs @ e # ys)"
  shows "dseg (list_del_between (lh_prev h e) (lh_next h e) h) a (xs @ ys) b"
proof -
  from assms(1) have segs: "dseg h a xs e" "dseg h e ys b" by (simp_all add: dseg_append)
  have pe: "lh_prev h e = last (a # xs)" using segs(1) by (rule dseg_last)
  have ne: "lh_next h e = hd (ys @ [b])" using segs(2) by (rule dseg_first)
  let ?p = "last (a # xs)" and ?n = "hd (ys @ [b])"
  let ?h = "list_del_between ?p ?n h"
  have nx: "lh_next ?h = (lh_next h)(?p := ?n)" and pv: "lh_prev ?h = (lh_prev h)(?n := ?p)"
    by (auto simp: heap_write_defs)
  have pin: "?p \<in> set (a # xs)" by (rule last_in_set) simp
  have tail: "dseg ?h y ys' b" if "ys = y # ys'" for y ys'
  proof -
    have "?p \<notin> set (y # ys')" "?n \<notin> set (ys' @ [b])"
      using pin that assms(2,3) by (auto simp del: last.simps)
    then have "dseg ?h y ys' b = dseg h y ys' b"
      by (intro dseg_frame) (auto simp: nx pv simp del: last.simps)
    with segs(2) that show ?thesis by simp
  qed
  have front: "dseg ?h a xs' x" if "xs = xs' @ [x]" for xs' x
  proof -
    have "dseg ?h a xs' x = dseg h a xs' x"
      by (rule dseg_frame) (use nx pv that assms(2,3) in \<open>cases ys; auto\<close>)+
    with segs(1) that show ?thesis by (simp add: dseg_append)
  qed
  have "dseg ?h a (xs @ ys) b"
  proof (cases xs rule: rev_cases)
    case Nil
    with tail nx pv show ?thesis by (cases ys) auto
  next
    case (snoc xs' x)
    with front tail nx pv show ?thesis by (cases ys) (auto simp: dseg_append)
  qed
  then show ?thesis by (simp only: pe ne)
qed

lemma dlist_del_between:
  assumes "dlist h head xs" "e \<in> set xs"
  shows "dlist (list_del_between (lh_prev h e) (lh_next h e) h) head (remove1 e xs)"
proof -
  from assms(2) obtain ys zs where xs: "xs = ys @ e # zs" and e: "e \<notin> set ys"
    by (meson split_list_first)
  with assms(1) have "dseg (list_del_between (lh_prev h e) (lh_next h e) h) head (ys @ zs) head"
    by (intro dseg_unsplice) (auto simp: dlist_def)
  with assms(1) xs e show ?thesis by (auto simp: dlist_def remove1_append)
qed

lemma dlist_frame:
  assumes "\<And>p. p \<in> set (head # xs) \<Longrightarrow> lh_next h' p = lh_next h p"
    and "\<And>p. p \<in> set (head # xs) \<Longrightarrow> lh_prev h' p = lh_prev h p"
  shows "dlist h' head xs = dlist h head xs"
proof -
  have "dseg h' head xs head = dseg h head xs head"
    by (rule dseg_frame) (use assms in auto)
  then show ?thesis by (simp add: dlist_def)
qed

lemma dlist_not_self: "dlist h head xs \<Longrightarrow> e \<in> set xs \<Longrightarrow> e \<noteq> head"
  by (auto simp: dlist_def)

lemma dlist_del:
  assumes "dlist h head xs" "e \<in> set xs"
  shows "dlist (list_del e h) head (remove1 e xs)"
proof -
  let ?h = "list_del_between (lh_prev h e) (lh_next h e) h"
  have nin: "e \<notin> set (head # remove1 e xs)"
    using assms by (auto simp: dlist_def)
  have "dlist (list_del e h) head (remove1 e xs) = dlist ?h head (remove1 e xs)"
    by (rule dlist_frame) (use nin in \<open>auto simp: list_del_def set_next_def set_prev_def Let_def\<close>)
  then show ?thesis using dlist_del_between[OF assms] by simp
qed

lemma dlist_del_init:
  assumes "dlist h head xs" "e \<in> set xs"
  shows "dlist (list_del_init e h) head (remove1 e xs)" "dlist (list_del_init e h) e []"
proof -
  let ?h = "list_del_between (lh_prev h e) (lh_next h e) h"
  have nin: "e \<notin> set (head # remove1 e xs)"
    using assms by (auto simp: dlist_def)
  have "dlist (list_del_init e h) head (remove1 e xs) = dlist ?h head (remove1 e xs)"
    by (rule dlist_frame)
      (use nin in \<open>auto simp: list_del_init_def INIT_LIST_HEAD_def set_next_def set_prev_def\<close>)
  then show "dlist (list_del_init e h) head (remove1 e xs)"
    using dlist_del_between[OF assms] by simp
  show "dlist (list_del_init e h) e []"
    by (simp add: list_del_init_def dlist_init)
qed

lemma dlist_move:
  assumes "dlist h head xs" "e \<in> set xs"
  shows "dlist (list_move e head h) head (e # remove1 e xs)"
    and "dlist (list_move_tail e head h) head (remove1 e xs @ [e])"
  using assms dlist_add[OF dlist_del_between[OF assms], of e]
    dlist_add_tail[OF dlist_del_between[OF assms], of e]
  by (auto simp: list_move_def list_move_tail_def dlist_def)

section \<open>Traversal and separation\<close>

lemma list_walk_seg:
  "dseg h a xs head \<Longrightarrow> head \<notin> set xs \<Longrightarrow> list_walk h head (lh_next h a) = Some xs"
proof (induction xs arbitrary: a)
  case Nil
  then show ?case by (simp add: list_walk.simps)
next
  case (Cons x xs)
  then have "list_walk h head (lh_next h x) = Some xs" by simp
  with Cons.prems show ?case by (auto simp: list_walk.simps[of h head x])
qed

lemma list_for_each_dlist: "dlist h head xs \<Longrightarrow> list_for_each h head = Some xs"
  by (simp add: list_for_each_def dlist_def list_walk_seg)

text \<open>Operations on one ring leave the rings built from other nodes unchanged.\<close>

lemma dlist_neighbours:
  assumes "dlist h head xs" "e \<in> set (head # xs)"
  shows "lh_next h e \<in> set (head # xs)" "lh_prev h e \<in> set (head # xs)"
proof -
  have "lh_next h e \<in> set (head # xs) \<and> lh_prev h e \<in> set (head # xs)"
  proof (cases "e = head")
    case True
    with dlist_next[OF assms(1)] dlist_prev[OF assms(1)] show ?thesis
      by (cases xs) auto
  next
    case False
    with assms(2) obtain ys zs where xs: "xs = ys @ e # zs" by (auto dest: split_list)
    with assms(1) have "dseg h head ys e" "dseg h e zs head"
      by (auto simp: dlist_def dseg_append)
    then have "lh_prev h e = last (head # ys)" "lh_next h e = hd (zs @ [head])"
      by (auto dest: dseg_last dseg_first)
    with xs show ?thesis by (cases zs) auto
  qed
  then show "lh_next h e \<in> set (head # xs)" "lh_prev h e \<in> set (head # xs)" by simp_all
qed

lemma dlist_add_other:
  assumes "dlist h head xs" "dlist h head' ys"
    and "set (head # xs) \<inter> set (head' # ys) = {}" "new \<notin> set (head' # ys)"
  shows "dlist (list_add new head h) head' ys" "dlist (list_add_tail new head h) head' ys"
proof -
  have nb: "lh_next h head \<notin> set (head' # ys)" "lh_prev h head \<notin> set (head' # ys)"
    "head \<notin> set (head' # ys)"
    using dlist_neighbours[OF assms(1), of head] assms(3) by auto
  have "dlist (list_add new head h) head' ys = dlist h head' ys"
    by (rule dlist_frame) (use nb assms(4) in \<open>auto simp: list_add_def heap_write_defs\<close>)
  then show "dlist (list_add new head h) head' ys" using assms(2) by simp
  have "dlist (list_add_tail new head h) head' ys = dlist h head' ys"
    by (rule dlist_frame) (use nb assms(4) in \<open>auto simp: list_add_tail_def heap_write_defs\<close>)
  then show "dlist (list_add_tail new head h) head' ys" using assms(2) by simp
qed

lemma dlist_del_other:
  assumes "dlist h head xs" "e \<in> set xs" "dlist h head' ys"
    and "set (head # xs) \<inter> set (head' # ys) = {}"
  shows "dlist (list_del e h) head' ys"
proof -
  have nb: "lh_next h e \<notin> set (head' # ys)" "lh_prev h e \<notin> set (head' # ys)"
    "e \<notin> set (head' # ys)"
    using dlist_neighbours[OF assms(1), of e] assms(2,4) by auto
  have "dlist (list_del e h) head' ys = dlist h head' ys"
    by (rule dlist_frame) (use nb in \<open>auto simp: list_del_def heap_write_defs\<close>)
  then show ?thesis using assms(3) by simp
qed

end
