(* ===== verification/V3_Queue.thy ===== *)
theory V3_Queue
  imports V3_List
begin

text \<open>
  The generic queue of \<^verbatim>\<open>src/palacios/vmm_queue.c\<close> on top of the linked lists. A queue entry is
  identified with the address of its embedded \<open>entry_list\<close> node (\<open>list_entry\<close> subtracts a
  constant offset). The address that \<open>V3_Malloc\<close> returns is an argument of the operation;
  what the code relies on is that it is not in use, which \<open>q_fresh\<close> states.
\<close>

section \<open>The interface of a queue\<close>

text \<open>Sequences of operations of any queue.\<close>

fun enq_all :: "('p \<Rightarrow> 'v \<Rightarrow> 'q \<Rightarrow> 'q) \<Rightarrow> ('p \<times> 'v) list \<Rightarrow> 'q \<Rightarrow> 'q" where
  "enq_all enq [] q = q"
| "enq_all enq ((p, v) # pvs) q = enq_all enq pvs (enq p v q)"

fun all_fresh :: "('p \<Rightarrow> 'v \<Rightarrow> 'q \<Rightarrow> 'q) \<Rightarrow> ('p \<Rightarrow> 'q \<Rightarrow> bool) \<Rightarrow> ('p \<times> 'v) list \<Rightarrow> 'q \<Rightarrow> bool"
  where
  "all_fresh enq fresh [] q = True"
| "all_fresh enq fresh ((p, v) # pvs) q \<longleftrightarrow> fresh p q \<and> all_fresh enq fresh pvs (enq p v q)"

fun deq_n :: "('q \<Rightarrow> 'v \<times> 'q) \<Rightarrow> nat \<Rightarrow> 'q \<Rightarrow> 'v list \<times> 'q" where
  "deq_n deq 0 q = ([], q)"
| "deq_n deq (Suc n) q = (let (v, q1) = deq q; (vs, q2) = deq_n deq n q1 in (v # vs, q2))"

text \<open>
  What a client of a queue relies on: entries come back in the order they went in. The
  client's lemma, on whole sequences of operations, is proved once for every implementation.
\<close>

locale fifo_queue =
  fixes enq :: "'p \<Rightarrow> 'v \<Rightarrow> 'q \<Rightarrow> 'q"
    and deq :: "'q \<Rightarrow> 'v \<times> 'q"
    and fresh :: "'p \<Rightarrow> 'q \<Rightarrow> bool"
    and reps :: "'q \<Rightarrow> 'v list \<Rightarrow> bool"
    and nothing :: 'v
  assumes reps_enq: "reps q vs \<Longrightarrow> fresh p q \<Longrightarrow> reps (enq p v q) (vs @ [v])"
    and deq_value: "reps q (v # vs) \<Longrightarrow> fst (deq q) = v"
    and reps_deq: "reps q (v # vs) \<Longrightarrow> reps (snd (deq q)) vs"
    and deq_empty: "reps q [] \<Longrightarrow> deq q = (nothing, q)"
begin

lemma reps_enq_all: "reps q vs \<Longrightarrow> all_fresh enq fresh pvs q \<Longrightarrow> reps (enq_all enq pvs q) (vs @ map snd pvs)"
proof (induction pvs arbitrary: q vs)
  case Nil
  then show ?case by simp
next
  case (Cons pv pvs)
  obtain p v where pv: "pv = (p, v)" by (cases pv)
  from Cons.prems pv have "reps (enq p v q) (vs @ [v])" "all_fresh enq fresh pvs (enq p v q)"
    by (auto intro: reps_enq)
  from Cons.IH[OF this] pv show ?case by simp
qed

lemma deq_n_reps: "reps q vs \<Longrightarrow> \<exists>q'. deq_n deq (length vs) q = (vs, q') \<and> reps q' []"
proof (induction vs arbitrary: q)
  case Nil
  then show ?case by simp
next
  case (Cons v vs)
  from Cons.IH[OF reps_deq[OF Cons.prems]] deq_value[OF Cons.prems] show ?case
    by (cases "deq q") auto
qed

lemma fifo_order:
  assumes "reps q []" "all_fresh enq fresh pvs q"
  shows "\<exists>q'. deq_n deq (length pvs) (enq_all enq pvs q) = (map snd pvs, q') \<and> deq q' = (nothing, q')"
proof -
  have "reps (enq_all enq pvs q) (map snd pvs)"
    using reps_enq_all[OF assms] by simp
  from deq_n_reps[OF this] obtain q' where
    "deq_n deq (length pvs) (enq_all enq pvs q) = (map snd pvs, q')" "reps q' []" by auto
  with deq_empty show ?thesis by blast
qed

end

section \<open>The queue of the monitor\<close>

record gen_queue =
  q_head :: addr_t
  q_num_entries :: uint_t
  q_heap :: list_heap
  q_entry :: "addr_t \<Rightarrow> addr_t"

definition v3_init_queue :: "gen_queue \<Rightarrow> gen_queue" where
  "v3_init_queue q =
     q\<lparr>q_num_entries := 0, q_heap := INIT_LIST_HEAD (q_head q) (q_heap q)\<rparr>"

text \<open>A queue at the address \<open>V3_Malloc\<close> returned, whose count is still whatever was there.\<close>

definition v3_create_queue :: "addr_t \<Rightarrow> uint_t \<Rightarrow> list_heap \<Rightarrow> (addr_t \<Rightarrow> addr_t) \<Rightarrow> gen_queue" where
  "v3_create_queue tmp_queue garbage heap entries =
     v3_init_queue \<lparr>q_head = tmp_queue, q_num_entries = garbage, q_heap = heap, q_entry = entries\<rparr>"

definition v3_enqueue :: "addr_t \<Rightarrow> addr_t \<Rightarrow> gen_queue \<Rightarrow> gen_queue" where
  "v3_enqueue q_ent entry q =
     q\<lparr>q_entry := (q_entry q)(q_ent := entry),
       q_heap := list_add_tail q_ent (q_head q) (q_heap q),
       q_num_entries := q_num_entries q + 1\<rparr>"

text \<open>The node is freed at the end; that gives its address back to the allocator and changes nothing
  else, so the next \<open>V3_Malloc\<close> may return it again (it is fresh).\<close>

definition v3_dequeue :: "gen_queue \<Rightarrow> addr_t \<times> gen_queue" where
  "v3_dequeue q =
     (if \<not> list_empty (q_head q) (q_heap q)
      then let q_ent = lh_next (q_heap q) (q_head q)
           in (q_entry q q_ent, q\<lparr>q_heap := list_del q_ent (q_heap q)\<rparr>)
      else (0, q))"

definition q_nodes :: "gen_queue \<Rightarrow> addr_t list \<Rightarrow> bool" where
  "q_nodes q xs \<longleftrightarrow> dlist (q_heap q) (q_head q) xs"

definition q_reps :: "gen_queue \<Rightarrow> addr_t list \<Rightarrow> bool" where
  "q_reps q vs \<longleftrightarrow> (\<exists>xs. q_nodes q xs \<and> vs = map (q_entry q) xs)"

definition q_fresh :: "addr_t \<Rightarrow> gen_queue \<Rightarrow> bool" where
  "q_fresh p q \<longleftrightarrow> (case list_for_each (q_heap q) (q_head q) of
     Some xs \<Rightarrow> p \<notin> set (q_head q # xs) | None \<Rightarrow> False)"

lemma q_reps_init: "q_reps (v3_init_queue q) []"
  by (auto simp: q_reps_def q_nodes_def v3_init_queue_def dlist_init)

lemma q_fresh_nodes: "q_nodes q xs \<Longrightarrow> q_fresh p q \<longleftrightarrow> p \<notin> set (q_head q # xs)"
  by (simp add: q_nodes_def q_fresh_def list_for_each_dlist)

lemma q_reps_enqueue:
  assumes "q_reps q vs" "q_fresh p q"
  shows "q_reps (v3_enqueue p v q) (vs @ [v])"
proof -
  from assms(1) obtain xs where xs: "q_nodes q xs" "vs = map (q_entry q) xs"
    by (auto simp: q_reps_def)
  with assms(2) have p: "p \<notin> set (q_head q # xs)" by (simp add: q_fresh_nodes)
  with xs(1) have "q_nodes (v3_enqueue p v q) (xs @ [p])"
    by (simp add: q_nodes_def v3_enqueue_def dlist_add_tail)
  moreover from p xs(2) have "vs @ [v] = map (q_entry (v3_enqueue p v q)) (xs @ [p])"
    by (auto simp: v3_enqueue_def)
  ultimately show ?thesis by (auto simp: q_reps_def)
qed

lemma q_nodes_dequeue:
  assumes "q_nodes q (x # xs)"
  shows "fst (v3_dequeue q) = q_entry q x" "q_nodes (snd (v3_dequeue q)) xs"
proof -
  from assms have d: "dlist (q_heap q) (q_head q) (x # xs)" by (simp add: q_nodes_def)
  then have nx: "lh_next (q_heap q) (q_head q) = x" "\<not> list_empty (q_head q) (q_heap q)"
    by (auto simp: dlist_next dlist_empty_iff)
  from dlist_del[OF d, of x] have "dlist (list_del x (q_heap q)) (q_head q) xs" by simp
  with nx show "fst (v3_dequeue q) = q_entry q x" "q_nodes (snd (v3_dequeue q)) xs"
    by (simp_all add: v3_dequeue_def Let_def q_nodes_def)
qed

lemma q_entry_dequeue [simp]: "q_entry (snd (v3_dequeue q)) = q_entry q"
  by (simp add: v3_dequeue_def Let_def)

lemma q_reps_dequeue:
  assumes "q_reps q (v # vs)"
  shows "fst (v3_dequeue q) = v" "q_reps (snd (v3_dequeue q)) vs"
proof -
  from assms obtain x xs where "q_nodes q (x # xs)" "v = q_entry q x" "vs = map (q_entry q) xs"
    by (auto simp: q_reps_def Cons_eq_map_conv)
  with q_nodes_dequeue[of q x xs]
  show "fst (v3_dequeue q) = v" "q_reps (snd (v3_dequeue q)) vs"
    by (auto simp: q_reps_def)
qed

lemma q_reps_dequeue_empty: "q_reps q [] \<Longrightarrow> v3_dequeue q = (0, q)"
  by (auto simp: q_reps_def q_nodes_def v3_dequeue_def dlist_empty_iff)

interpretation v3q: fifo_queue v3_enqueue v3_dequeue q_fresh q_reps 0
  by unfold_locales
    (auto intro: q_reps_enqueue q_reps_dequeue(2) simp: q_reps_dequeue(1) q_reps_dequeue_empty)

text \<open>C21: The queue built by v3_init_queue is first in, first out: after any sequence of
  v3_enqueue calls on fresh nodes, as many v3_dequeue calls return the entries in the order
  they were queued, and one more call returns 0 and changes nothing.\<close>

theorem v3_queue_fifo:
  assumes "all_fresh v3_enqueue q_fresh pvs (v3_init_queue q)"
  shows "\<exists>q'. deq_n v3_dequeue (length pvs) (enq_all v3_enqueue pvs (v3_init_queue q)) = (map snd pvs, q')
           \<and> v3_dequeue q' = (0, q')"
  by (rule v3q.fifo_order[OF q_reps_init assms])

definition demo_queue :: gen_queue where
  "demo_queue = \<lparr>q_head = 0x1000, q_num_entries = 7,
     q_heap = \<lparr>lh_next = (\<lambda>_. 0), lh_prev = (\<lambda>_. 0)\<rparr>, q_entry = (\<lambda>_. 0)\<rparr>"

lemma demo_queue_fresh:
  "all_fresh v3_enqueue q_fresh [(0x2000, 11), (0x3000, 22)] (v3_init_queue demo_queue)"
proof -
  let ?q = "v3_init_queue demo_queue"
  have n0: "q_nodes ?q []" by (simp add: q_nodes_def v3_init_queue_def dlist_init)
  then have f0: "q_fresh 0x2000 ?q"
    by (simp add: q_fresh_nodes v3_init_queue_def demo_queue_def)
  have "q_nodes (v3_enqueue 0x2000 11 ?q) [0x2000]"
    using n0 dlist_add_tail[of "q_heap ?q" "q_head ?q" "[]" "0x2000"]
    by (simp add: q_nodes_def v3_enqueue_def v3_init_queue_def demo_queue_def)
  then have "q_fresh 0x3000 (v3_enqueue 0x2000 11 ?q)"
    by (simp add: q_fresh_nodes v3_enqueue_def v3_init_queue_def demo_queue_def)
  with f0 show ?thesis by simp
qed

theorem v3_queue_fifo_witness:
  "\<exists>q'. deq_n v3_dequeue 2 (enq_all v3_enqueue [(0x2000, 11), (0x3000, 22)] (v3_init_queue demo_queue))
        = ([11, 22], q') \<and> v3_dequeue q' = (0, q')"
  using v3_queue_fifo[OF demo_queue_fresh] by (simp add: numeral_2_eq_2)

text \<open>C37: v3_dequeue never updates num_entries: the count that v3_enqueue maintains only
  grows, so after n enqueues and any number of dequeues it is n (modulo 2^32), not the
  number of queued entries.\<close>

theorem v3_queue_count_stale:
  "q_num_entries (snd (deq_n v3_dequeue k (enq_all v3_enqueue pvs (v3_init_queue q)))) = of_nat (length pvs)"
proof -
  have deq: "q_num_entries (snd (deq_n v3_dequeue k q)) = q_num_entries q" for k q
  proof (induction k arbitrary: q)
    case (Suc k)
    have "q_num_entries (snd (v3_dequeue q)) = q_num_entries q"
      by (simp add: v3_dequeue_def Let_def)
    with Suc[of "snd (v3_dequeue q)"] show ?case by (simp add: split_beta)
  qed simp
  have enq1: "q_num_entries (v3_enqueue p v q) = q_num_entries q + 1" for p v q
    by (simp add: v3_enqueue_def)
  have "q_num_entries (enq_all v3_enqueue pvs q) = q_num_entries q + of_nat (length pvs)" for q
  proof (induction pvs arbitrary: q)
    case (Cons pv pvs)
    then show ?case by (cases pv) (simp add: enq1)
  qed simp
  with deq show ?thesis by (simp add: v3_init_queue_def)
qed

end
