(* ===== verification/V3_IO.thy ===== *)
theory V3_IO
  imports V3_Prelude
begin

text \<open>
  The table of hooked I/O ports of \<^verbatim>\<open>src/palacios/vmm_io.c\<close>. The hooks are nodes of a
  null-terminated doubly linked list in port order; the model keeps the nodes in a store
  indexed by their address, so that \<open>next\<close> and \<open>prev\<close> are updated one assignment at a time,
  as the code does. The loops are \<open>partial_function\<close>s: on a broken list they need not end.
  The address \<open>V3_Malloc\<close> returned for a hook is an argument of the operation.
\<close>

section \<open>Data\<close>

record vmm_io_hook =
  ioh_port :: ushort_t
  ioh_read :: addr_t
  ioh_write :: addr_t
  ioh_priv_data :: addr_t
  ioh_next :: addr_t
  ioh_prev :: addr_t

record vmm_io_map =
  num_ports :: uint_t
  io_head :: addr_t
  io_store :: "addr_t \<Rightarrow> vmm_io_hook"

definition io_set_next :: "addr_t \<Rightarrow> addr_t \<Rightarrow> vmm_io_map \<Rightarrow> vmm_io_map" where
  "io_set_next p n m = m\<lparr>io_store := (io_store m)(p := (io_store m p)\<lparr>ioh_next := n\<rparr>)\<rparr>"

definition io_set_prev :: "addr_t \<Rightarrow> addr_t \<Rightarrow> vmm_io_map \<Rightarrow> vmm_io_map" where
  "io_set_prev p n m = m\<lparr>io_store := (io_store m)(p := (io_store m p)\<lparr>ioh_prev := n\<rparr>)\<rparr>"

section \<open>Operations\<close>

definition v3_init_vmm_io_map :: "vmm_io_map \<Rightarrow> vmm_io_map" where
  "v3_init_vmm_io_map m = m\<lparr>num_ports := 0, io_head := 0\<rparr>"

text \<open>The loop that looks for the last hook whose port is not above the new one.\<close>

partial_function (option) find_io_place ::
  "(addr_t \<Rightarrow> vmm_io_hook) \<Rightarrow> ushort_t \<Rightarrow> addr_t \<Rightarrow> addr_t option" where
  "find_io_place st port tmp_hook =
     (let nxt = ioh_next (st tmp_hook)
      in if nxt \<noteq> 0 \<and> ioh_port (st nxt) \<le> port then find_io_place st port nxt else Some tmp_hook)"

definition add_io_hook :: "vmm_io_map \<Rightarrow> addr_t \<Rightarrow> (int \<times> vmm_io_map) option" where
  "add_io_hook m io_hook =
     (if io_head m = 0 then Some (0, m\<lparr>io_head := io_hook, num_ports := 1\<rparr>)
      else if ioh_port (io_store m (io_head m)) > ioh_port (io_store m io_hook) then
        let m1 = io_set_next io_hook (io_head m) m;
            m2 = io_set_prev (io_head m) io_hook m1
        in Some (0, m2\<lparr>io_head := io_hook, num_ports := num_ports m + 1\<rparr>)
      else case find_io_place (io_store m) (ioh_port (io_store m io_hook)) (io_head m) of
             None \<Rightarrow> None
           | Some tmp_hook \<Rightarrow>
               if ioh_port (io_store m tmp_hook) = ioh_port (io_store m io_hook) then Some (-1, m)
               else let nxt = ioh_next (io_store m tmp_hook);
                        m1 = io_set_prev io_hook tmp_hook m;
                        m2 = io_set_next io_hook nxt m1;
                        m3 = (if nxt \<noteq> 0 then io_set_prev nxt io_hook m2 else m2);
                        m4 = io_set_next tmp_hook io_hook m3
                    in Some (0, m4\<lparr>num_ports := num_ports m + 1\<rparr>))"

definition remove_io_hook :: "vmm_io_map \<Rightarrow> addr_t \<Rightarrow> int \<times> vmm_io_map" where
  "remove_io_hook m io_hook =
     (let nxt = ioh_next (io_store m io_hook); prv = ioh_prev (io_store m io_hook);
          unlinked = (if io_head m = io_hook then Some (m\<lparr>io_head := nxt\<rparr>)
                      else if prv \<noteq> 0 then Some (io_set_next prv nxt m) else None)
      in case unlinked of
           None \<Rightarrow> (-1, m)
         | Some m1 \<Rightarrow>
             let m2 = (if nxt \<noteq> 0 then io_set_prev nxt prv m1 else m1)
             in (0, m2\<lparr>num_ports := num_ports m - 1\<rparr>))"

text \<open>The handlers used when a caller passes a null pointer; their addresses are arguments.\<close>

definition v3_hook_io_port ::
  "addr_t \<Rightarrow> addr_t \<Rightarrow> vmm_io_map \<Rightarrow> uint_t \<Rightarrow> addr_t \<Rightarrow> addr_t \<Rightarrow> addr_t \<Rightarrow> addr_t
    \<Rightarrow> (int \<times> vmm_io_map) option" where
  "v3_hook_io_port default_read default_write m port rd wr priv_data io_hook =
     (let h = \<lparr>ioh_port = ucast port,
               ioh_read = (if rd = 0 then default_read else rd),
               ioh_write = (if wr = 0 then default_write else wr),
               ioh_priv_data = priv_data, ioh_next = 0, ioh_prev = 0\<rparr>
      in case add_io_hook (m\<lparr>io_store := (io_store m)(io_hook := h)\<rparr>) io_hook of
           None \<Rightarrow> None
         | Some (ret, m') \<Rightarrow> Some (if ret \<noteq> 0 then -1 else 0, m'))"

partial_function (option) find_io_hook ::
  "(addr_t \<Rightarrow> vmm_io_hook) \<Rightarrow> uint_t \<Rightarrow> addr_t \<Rightarrow> addr_t option" where
  "find_io_hook st port tmp_hook =
     (if tmp_hook = 0 then Some 0
      else if ucast (ioh_port (st tmp_hook)) = port then Some tmp_hook
      else find_io_hook st port (ioh_next (st tmp_hook)))"

definition v3_get_io_hook :: "vmm_io_map \<Rightarrow> uint_t \<Rightarrow> addr_t option" where
  "v3_get_io_hook m port = find_io_hook (io_store m) port (io_head m)"

definition v3_unhook_io_port :: "vmm_io_map \<Rightarrow> uint_t \<Rightarrow> (int \<times> vmm_io_map) option" where
  "v3_unhook_io_port m port =
     (case v3_get_io_hook m port of
        None \<Rightarrow> None
      | Some hook \<Rightarrow> if hook = 0 then Some (-1, m) else Some (0, snd (remove_io_hook m hook)))"

text \<open>The loop of \<open>v3_print_io_map\<close>, without the printing.\<close>

partial_function (option) print_io_loop :: "(addr_t \<Rightarrow> vmm_io_hook) \<Rightarrow> addr_t \<Rightarrow> unit option" where
  "print_io_loop st iter = (if iter = 0 then Some () else print_io_loop st iter)"

definition v3_print_io_map :: "vmm_io_map \<Rightarrow> unit option" where
  "v3_print_io_map m = print_io_loop (io_store m) (io_head m)"

text \<open>The default handlers ignore the access and report 0 bytes.\<close>

definition default_write :: "ushort_t \<Rightarrow> uchar_t list \<Rightarrow> uint_t \<Rightarrow> addr_t \<Rightarrow> int" where
  "default_write port src len priv_data = 0"

definition default_read :: "ushort_t \<Rightarrow> uint_t \<Rightarrow> addr_t \<Rightarrow> int \<times> uchar_t list option" where
  "default_read port len priv_data = (0, None)"

section \<open>Chains of hooks\<close>

text \<open>\<open>io_seg st prv p xs q\<close>: from \<open>p\<close> up to \<open>q\<close> the nodes are \<open>xs\<close>, linked both ways, with \<open>prv\<close>
  before the first.\<close>

fun io_seg :: "(addr_t \<Rightarrow> vmm_io_hook) \<Rightarrow> addr_t \<Rightarrow> addr_t \<Rightarrow> addr_t list \<Rightarrow> addr_t \<Rightarrow> bool" where
  "io_seg st prv p [] q \<longleftrightarrow> p = q"
| "io_seg st prv p (x # xs) q \<longleftrightarrow> p = x \<and> x \<noteq> 0 \<and> ioh_prev (st x) = prv
     \<and> io_seg st x (ioh_next (st x)) xs q"

definition io_port_of :: "vmm_io_map \<Rightarrow> addr_t \<Rightarrow> ushort_t" where
  "io_port_of m x = ioh_port (io_store m x)"

definition io_wf :: "vmm_io_map \<Rightarrow> addr_t list \<Rightarrow> bool" where
  "io_wf m xs \<longleftrightarrow> io_seg (io_store m) 0 (io_head m) xs 0 \<and> distinct xs
     \<and> sorted_wrt (<) (map (io_port_of m) xs)
     \<and> num_ports m = of_nat (length xs)"

text \<open>What the table means: the handlers and the private data bound to a port.\<close>

definition io_payload :: "vmm_io_map \<Rightarrow> addr_t \<Rightarrow> addr_t \<times> addr_t \<times> addr_t" where
  "io_payload m x = (ioh_read (io_store m x), ioh_write (io_store m x), ioh_priv_data (io_store m x))"

definition io_binding :: "vmm_io_map \<Rightarrow> addr_t list \<Rightarrow> ushort_t \<rightharpoonup> addr_t \<times> addr_t \<times> addr_t" where
  "io_binding m xs = map_of (map (\<lambda>x. (io_port_of m x, io_payload m x)) xs)"

lemma io_seg_cong:
  "(\<And>x. x \<in> set xs \<Longrightarrow> ioh_next (st' x) = ioh_next (st x) \<and> ioh_prev (st' x) = ioh_prev (st x))
   \<Longrightarrow> io_seg st' prv p xs q = io_seg st prv p xs q"
  by (induction xs arbitrary: prv p) auto

lemma io_seg_nonzero: "io_seg st prv p xs q \<Longrightarrow> 0 \<notin> set xs"
  by (induction xs arbitrary: prv p) auto

lemma io_seg_append:
  "io_seg st prv p (xs @ ys) q \<longleftrightarrow>
     (\<exists>r. io_seg st prv p xs r \<and> io_seg st (if xs = [] then prv else last xs) r ys q)"
  by (induction xs arbitrary: prv p) auto

text \<open>The last node of a segment redirected elsewhere.\<close>

lemma io_seg_redirect:
  assumes "io_seg st prv p xs q" "distinct xs" "xs \<noteq> []"
  shows "io_seg (st(last xs := (st (last xs))\<lparr>ioh_next := q'\<rparr>)) prv p xs q'"
  using assms
proof (induction xs arbitrary: prv p)
  case (Cons x xs)
  then show ?case by (cases "xs = []") auto
qed simp

lemma find_io_place_seg:
  assumes "io_seg st prv t (t # bs) 0"
  shows "find_io_place st port t = Some (last (t # takeWhile (\<lambda>x. ioh_port (st x) \<le> port) bs))"
  using assms
proof (induction bs arbitrary: prv t)
  case Nil
  then show ?case by (simp add: find_io_place.simps)
next
  case (Cons b bs)
  then show ?case by (subst find_io_place.simps) (auto simp: Let_def)
qed

lemma find_io_hook_seg:
  assumes "io_seg st prv p xs 0"
  shows "find_io_hook st port p = Some (case find (\<lambda>x. ucast (ioh_port (st x)) = port) xs of None \<Rightarrow> 0 | Some x \<Rightarrow> x)"
  using assms
proof (induction xs arbitrary: prv p)
  case Nil
  then show ?case by (simp add: find_io_hook.simps)
next
  case (Cons x xs)
  then show ?case by (subst find_io_hook.simps) auto
qed

lemma print_io_loop_only_null:
  assumes "print_io_loop st iter = Some u"
  shows "iter = 0"
  by (rule print_io_loop.raw_induct[of "\<lambda>st iter u. iter = 0", OF _ assms]) (auto split: if_splits)

section \<open>Insertion\<close>

lemma io_insert_first:
  assumes "io_seg (io_store m) 0 (io_head m) (x # xs) 0" "h \<notin> set (x # xs)" "h \<noteq> 0"
    and "ioh_prev (io_store m h) = 0" "distinct (x # xs)"
  shows "io_seg (io_store (io_set_prev (io_head m) h (io_set_next h (io_head m) m))) 0 h (h # x # xs) 0"
proof -
  define st where "st = io_store (io_set_prev (io_head m) h (io_set_next h (io_head m) m))"
  have f: "ioh_next (st h) = x" "ioh_prev (st h) = 0" "ioh_prev (st x) = h"
    "ioh_next (st x) = ioh_next (io_store m x)"
    "\<And>y. y \<in> set xs \<Longrightarrow> st y = io_store m y"
    using assms by (auto simp: st_def io_set_prev_def io_set_next_def)
  have "io_seg st x (ioh_next (st x)) xs 0 = io_seg (io_store m) x (ioh_next (st x)) xs 0"
    using f(5) by (auto intro!: io_seg_cong)
  then show ?thesis unfolding st_def[symmetric] using assms f by auto
qed

lemma io_insert_after:
  assumes seg: "io_seg (io_store m) 0 (io_head m) (as @ [t] @ bs) 0" and d: "distinct (as @ [t] @ bs)"
    and h: "h \<notin> set (as @ [t] @ bs)" "h \<noteq> 0"
    and nxt: "nxt = ioh_next (io_store m t)"
    and m4: "m4 = io_set_next t h (if nxt \<noteq> 0 then io_set_prev nxt h (io_set_next h nxt (io_set_prev h t m))
                     else io_set_next h nxt (io_set_prev h t m))"
  shows "io_seg (io_store m4) 0 (io_head m) (as @ [t] @ [h] @ bs) 0"
proof -
  from seg have s: "io_seg (io_store m) 0 (io_head m) (as @ [t]) nxt" "io_seg (io_store m) t nxt bs 0"
    using nxt by (auto simp: io_seg_append)
  have nb: "nxt = (case bs of [] \<Rightarrow> 0 | b # _ \<Rightarrow> b)" using s(2) by (cases bs) auto
  have front: "io_seg (io_store m4) 0 (io_head m) (as @ [t]) h"
  proof -
    have "io_seg ((io_store m)(t := (io_store m t)\<lparr>ioh_next := h\<rparr>)) 0 (io_head m) (as @ [t]) h"
      using io_seg_redirect[OF s(1)] d by simp
    then show ?thesis
      by (rule io_seg_cong[THEN iffD2, rotated])
        (use d h nb in \<open>auto simp: m4 io_set_next_def io_set_prev_def split: list.splits\<close>)
  qed
  have rear: "io_seg (io_store m4) h nxt bs 0"
  proof (cases bs)
    case (Cons b cs)
    have f: "ioh_next (io_store m4 b) = ioh_next (io_store m b)" "ioh_prev (io_store m4 b) = h"
      "\<And>y. y \<in> set cs \<Longrightarrow> io_store m4 y = io_store m y"
      using d h nb Cons s(2) by (auto simp: m4 io_set_next_def io_set_prev_def)
    have "io_seg (io_store m4) b (ioh_next (io_store m b)) cs 0
        = io_seg (io_store m) b (ioh_next (io_store m b)) cs 0"
      using f(3) by (auto intro!: io_seg_cong)
    then show ?thesis using s(2) Cons f by auto
  qed (use s(2) in auto)
  have "ioh_prev (io_store m4 h) = t" "ioh_next (io_store m4 h) = nxt"
    using d h nb by (auto simp: m4 io_set_next_def io_set_prev_def split: list.splits)
  with front rear h show ?thesis by (auto simp: io_seg_append)
qed


lemma io_set_fields [simp]:
  "io_port_of (io_set_next a b m) = io_port_of m" "io_port_of (io_set_prev a b m) = io_port_of m"
  "io_payload (io_set_next a b m) = io_payload m" "io_payload (io_set_prev a b m) = io_payload m"
  "io_head (io_set_next a b m) = io_head m" "io_head (io_set_prev a b m) = io_head m"
  "num_ports (io_set_next a b m) = num_ports m" "num_ports (io_set_prev a b m) = num_ports m"
  "io_port_of (m\<lparr>num_ports := n\<rparr>) = io_port_of m" "io_payload (m\<lparr>num_ports := n\<rparr>) = io_payload m"
  "io_port_of (m\<lparr>io_head := p\<rparr>) = io_port_of m" "io_payload (m\<lparr>io_head := p\<rparr>) = io_payload m"
  by (auto simp: io_set_next_def io_set_prev_def io_port_of_def io_payload_def fun_eq_iff)

text \<open>A hook with an unused port, put into a well-formed table, goes to its place in port order.\<close>

lemma add_io_hook_wf:
  assumes wf: "io_wf m xs" and h: "h \<notin> set xs" "h \<noteq> 0"
    and hp: "ioh_prev (io_store m h) = 0" "ioh_next (io_store m h) = 0"
  shows "\<exists>ret m'. add_io_hook m h = Some (ret, m')
    \<and> (if io_port_of m h \<in> io_port_of m ` set xs then ret = -1 \<and> m' = m
       else ret = 0 \<and> io_port_of m' = io_port_of m \<and> io_payload m' = io_payload m
          \<and> (\<exists>as bs. xs = as @ bs \<and> io_wf m' (as @ h # bs)))"
proof (cases xs)
  case Nil
  then show ?thesis using wf h hp
    by (auto simp: add_io_hook_def io_wf_def io_port_of_def)
next
  case (Cons x ys)
  let ?pt = "io_port_of m h"
  have seg: "io_seg (io_store m) 0 (io_head m) (x # ys) 0" and d: "distinct (x # ys)"
    and so: "sorted_wrt (<) (map (io_port_of m) (x # ys))" and n: "num_ports m = of_nat (length (x # ys))"
    using wf Cons by (auto simp: io_wf_def)
  have hd: "io_head m = x" "x \<noteq> 0" using seg by auto
  show ?thesis
  proof (cases "io_port_of m x > ?pt")
    case True
    let ?m = "(io_set_prev (io_head m) h (io_set_next h (io_head m) m))\<lparr>io_head := h, num_ports := num_ports m + 1\<rparr>"
    have "add_io_hook m h = Some (0, ?m)"
      using hd True by (simp add: add_io_hook_def io_port_of_def[symmetric] Let_def)
    moreover have "io_wf ?m (h # x # ys)"
      using io_insert_first[OF seg _ h(2) hp(1) d] h Cons True so d n by (auto simp: io_wf_def)
    moreover have "?pt \<notin> io_port_of m ` set xs" using True so Cons by force
    ultimately show ?thesis using Cons by (intro exI[of _ 0] exI[of _ ?m]) (auto intro: exI[of _ "[]"])
  next
    case False
    define us where "us = x # takeWhile (\<lambda>y. io_port_of m y \<le> ?pt) ys"
    define vs where "vs = dropWhile (\<lambda>y. io_port_of m y \<le> ?pt) ys"
    define t where "t = last us"
    have "x # ys = us @ vs" by (simp add: us_def vs_def)
    moreover have "butlast us @ [t] = us" unfolding t_def by (rule append_butlast_last_id) (simp add: us_def)
    ultimately have split: "x # ys = butlast us @ [t] @ vs" by (metis append.assoc)
    have le: "\<forall>u\<in>set us. io_port_of m u \<le> ?pt"
      using False by (auto simp: us_def dest: set_takeWhileD)
    have gt: "\<forall>v\<in>set vs. ?pt < io_port_of m v"
    proof (cases vs)
      case (Cons v vs')
      then have "?pt < io_port_of m v"
        using hd_dropWhile[of "\<lambda>y. io_port_of m y \<le> ?pt" ys] by (simp add: vs_def not_le)
      moreover have "sorted_wrt (<) (map (io_port_of m) vs)" using so unfolding split by (simp add: sorted_wrt_append)
      ultimately show ?thesis using Cons by (auto intro: less_trans)
    qed simp
    have fp: "find_io_place (io_store m) ?pt x = Some t"
      using find_io_place_seg[of "io_store m" 0 x ys ?pt] seg by (simp add: us_def t_def io_port_of_def)
    show ?thesis
    proof (cases "io_port_of m t = ?pt")
      case True
      have "t \<in> set xs" using split Cons by auto
      then have "?pt \<in> io_port_of m ` set xs" using True by (metis imageI)
      then show ?thesis using fp hd False True
        by (simp add: add_io_hook_def io_port_of_def[symmetric])
    next
      case ne: False
      have lt: "\<forall>u\<in>set (butlast us). io_port_of m u < io_port_of m t"
        using so unfolding split by (simp add: sorted_wrt_append)
      have "t \<in> set us" by (simp add: t_def us_def)
      then have tl: "io_port_of m t < ?pt" using le ne by (auto simp: order.strict_iff_order)
      have notin: "?pt \<notin> io_port_of m ` set xs"
        using lt tl gt unfolding Cons split by (force dest: less_trans)
      define nxt where "nxt = ioh_next (io_store m t)"
      define m4 where "m4 = io_set_next t h (if nxt \<noteq> 0 then io_set_prev nxt h (io_set_next h nxt (io_set_prev h t m))
                     else io_set_next h nxt (io_set_prev h t m))"
      have m4: "io_port_of m4 = io_port_of m" "io_payload m4 = io_payload m" "io_head m4 = io_head m" by (simp_all add: m4_def)
      have add: "add_io_hook m h = Some (0, m4\<lparr>num_ports := num_ports m + 1\<rparr>)"
        using fp hd False ne by (simp add: add_io_hook_def io_port_of_def[symmetric] Let_def m4_def nxt_def)
      have seg': "io_seg (io_store m) 0 (io_head m) (butlast us @ [t] @ vs) 0" and d': "distinct (butlast us @ [t] @ vs)"
        and h': "h \<notin> set (butlast us @ [t] @ vs)"
        using seg d h(1) unfolding Cons split by auto
      have "io_seg (io_store m4) 0 (io_head m) (butlast us @ [t] @ [h] @ vs) 0"
        by (rule io_insert_after[OF seg' d' h' h(2) nxt_def m4_def])
      moreover have "sorted_wrt (<) (map (io_port_of m) (butlast us @ [t] @ [h] @ vs))"
        using so lt tl gt unfolding split by (auto simp: sorted_wrt_append intro: less_trans)
      moreover have "length (x # ys) = length (butlast us @ [t] @ vs)" by (simp only: split)
      ultimately have "io_wf (m4\<lparr>num_ports := num_ports m + 1\<rparr>) ((butlast us @ [t]) @ h # vs)"
        using d' h' n m4 by (auto simp: io_wf_def)
      moreover have "xs = (butlast us @ [t]) @ vs" using split Cons by simp
      ultimately have "\<exists>as bs. xs = as @ bs \<and> io_wf (m4\<lparr>num_ports := num_ports m + 1\<rparr>) (as @ h # bs)" by blast
      then show ?thesis using add notin m4 by simp
    qed
  qed
qed


section \<open>Removal\<close>

lemma io_seg_reprev:
  assumes "io_seg st prv p xs 0" "distinct xs"
  shows "io_seg (if p \<noteq> 0 then st(p := (st p)\<lparr>ioh_prev := prv'\<rparr>) else st) prv' p xs 0"
proof (cases xs)
  case (Cons x ys)
  then have x: "p = x" "x \<noteq> 0" "x \<notin> set ys" "io_seg st x (ioh_next (st x)) ys 0" using assms by auto
  then have "io_seg (st(x := (st x)\<lparr>ioh_prev := prv'\<rparr>)) x (ioh_next (st x)) ys 0"
    by (subst io_seg_cong[where st = st]) auto
  then show ?thesis using Cons x by simp
qed (use assms in auto)

lemma remove_io_hook_wf:
  assumes wf: "io_wf m (as @ h # bs)"
  shows "\<exists>m'. remove_io_hook m h = (0, m') \<and> io_wf m' (as @ bs)
    \<and> io_port_of m' = io_port_of m \<and> io_payload m' = io_payload m"
proof -
  define nxt where "nxt = ioh_next (io_store m h)"
  define prv where "prv = ioh_prev (io_store m h)"
  define m1 where "m1 = (if as = [] then m\<lparr>io_head := nxt\<rparr> else io_set_next prv nxt m)"
  define m2 where "m2 = (if nxt \<noteq> 0 then io_set_prev nxt prv m1 else m1)"
  have d: "distinct (as @ h # bs)" and so: "sorted_wrt (<) (map (io_port_of m) (as @ h # bs))"
    and seg: "io_seg (io_store m) 0 (io_head m) (as @ h # bs) 0"
    and n: "num_ports m = of_nat (length (as @ h # bs))" using wf by (auto simp: io_wf_def)
  have s: "io_seg (io_store m) 0 (io_head m) as h" "h \<noteq> 0" "prv = (if as = [] then 0 else last as)"
    "io_seg (io_store m) h nxt bs 0" using seg by (auto simp: io_seg_append nxt_def prv_def)
  have hd: "io_head m = h \<longleftrightarrow> as = []" using s(1) d by (cases as) auto
  have pz: "as \<noteq> [] \<Longrightarrow> prv \<noteq> 0" using s(3) io_seg_nonzero[OF s(1)] last_in_set[of as] by metis
  have rm: "remove_io_hook m h = (0, m2\<lparr>num_ports := num_ports m - 1\<rparr>)"
    using hd pz by (simp add: remove_io_hook_def Let_def nxt_def[symmetric] prv_def[symmetric] m1_def m2_def)
  have nb: "nxt \<noteq> 0 \<Longrightarrow> nxt \<in> set bs" using s(4) by (cases bs) auto
  have f: "io_port_of m2 = io_port_of m" "io_payload m2 = io_payload m" by (auto simp: m1_def m2_def)
  have bs1: "io_seg (io_store m1) h nxt bs 0"
  proof (cases "as = []")
    case False
    then have "prv \<in> set as" using s(3) by simp
    then have "prv \<notin> set bs" using d by auto
    with s(4) show ?thesis by (subst io_seg_cong[where st = "io_store m"]) (auto simp: m1_def False io_set_next_def)
  qed (use s(4) in \<open>simp add: m1_def\<close>)
  then have bs2: "io_seg (io_store m2) prv nxt bs 0"
    using io_seg_reprev[OF bs1, of prv] d by (auto simp: m2_def io_set_prev_def)
  have as2: "io_seg (io_store m2) 0 (io_head m2) as nxt"
  proof (cases "as = []")
    case False
    then have "io_seg (io_store m1) 0 (io_head m) as nxt"
      using io_seg_redirect[OF s(1)] d s(3) by (simp add: m1_def io_set_next_def)
    moreover have "nxt \<noteq> 0 \<Longrightarrow> nxt \<notin> set as" using nb d by auto
    ultimately have "io_seg (io_store m2) 0 (io_head m) as nxt"
      by (subst io_seg_cong[where st = "io_store m1"]) (auto simp: m2_def io_set_prev_def)
    moreover have "io_head m2 = io_head m" using False by (simp add: m1_def m2_def)
    ultimately show ?thesis by simp
  qed (simp add: m1_def m2_def)
  have "io_seg (io_store m2) 0 (io_head m2) (as @ bs) 0"
    using as2 bs2 s(3) by (auto simp: io_seg_append)
  then have "io_wf (m2\<lparr>num_ports := num_ports m - 1\<rparr>) (as @ bs)"
    using d so n f by (auto simp: io_wf_def sorted_wrt_append)
  with rm f show ?thesis by auto
qed

section \<open>Properties\<close>

lemma io_wf_find:
  assumes "io_wf m xs"
  shows "v3_get_io_hook m port = Some (case find (\<lambda>x. ucast (io_port_of m x) = port) xs of None \<Rightarrow> 0 | Some x \<Rightarrow> x)"
  using assms find_io_hook_seg[of "io_store m" 0 "io_head m" xs port]
  by (simp add: v3_get_io_hook_def io_wf_def io_port_of_def)

lemma io_binding_None: "io_binding m xs p = None \<longleftrightarrow> p \<notin> io_port_of m ` set xs"
  by (auto simp: io_binding_def map_of_eq_None_iff image_image)

lemma io_wf_distinct_ports: "io_wf m xs \<Longrightarrow> distinct (map (io_port_of m) xs)"
  by (auto simp: io_wf_def strict_sorted_iff)

lemma io_binding_insert:
  assumes "io_wf m (as @ h # bs)"
  shows "io_binding m (as @ h # bs) = (io_binding m (as @ bs))(io_port_of m h \<mapsto> io_payload m h)"
proof -
  have "io_binding m as (io_port_of m h) = None"
    using io_wf_distinct_ports[OF assms] by (auto simp: io_binding_None)
  then show ?thesis by (simp add: io_binding_def map_add_upd_left domIff)
qed

lemma v3_hook_io_port_ok:
  assumes wf: "io_wf m xs" and h: "h \<notin> set xs" "h \<noteq> 0"
  shows "\<exists>ret m'. v3_hook_io_port dr dw m port rd wr priv h = Some (ret, m')
    \<and> (if io_binding m xs (ucast port) \<noteq> None
       then ret = -1 \<and> io_wf m' xs \<and> io_binding m' xs = io_binding m xs
       else ret = 0 \<and> (\<exists>as bs. xs = as @ bs \<and> io_wf m' (as @ h # bs) \<and> io_port_of m' h = ucast port
          \<and> io_binding m' (as @ h # bs)
              = (io_binding m xs)(ucast port \<mapsto> (if rd = 0 then dr else rd, if wr = 0 then dw else wr, priv))))"
proof -
  define hk where "hk = \<lparr>ioh_port = ucast port, ioh_read = (if rd = 0 then dr else rd),
    ioh_write = (if wr = 0 then dw else wr), ioh_priv_data = priv, ioh_next = 0, ioh_prev = 0\<rparr>"
  define m0 where "m0 = m\<lparr>io_store := (io_store m)(h := hk)\<rparr>"
  have same: "\<And>x. x \<in> set xs \<Longrightarrow> io_store m0 x = io_store m x" using h by (auto simp: m0_def)
  have wf0: "io_wf m0 xs" using wf io_seg_cong[of xs "io_store m0" "io_store m" 0 "io_head m" 0] same
    by (auto simp: io_wf_def m0_def io_port_of_def cong: map_cong)
  have b0: "io_binding m0 xs = io_binding m xs"
    using same by (auto simp: io_binding_def io_port_of_def io_payload_def cong: map_cong)
  have hm0: "io_port_of m0 h = ucast port" "io_payload m0 h = (if rd = 0 then dr else rd, if wr = 0 then dw else wr, priv)"
    "ioh_prev (io_store m0 h) = 0" "ioh_next (io_store m0 h) = 0"
    by (auto simp: m0_def hk_def io_port_of_def io_payload_def)
  from add_io_hook_wf[OF wf0 h hm0(3,4)] obtain ret m' where
    add: "add_io_hook m0 h = Some (ret, m')" and
    r: "if ucast port \<in> io_port_of m0 ` set xs then ret = -1 \<and> m' = m0
       else ret = 0 \<and> io_port_of m' = io_port_of m0 \<and> io_payload m' = io_payload m0
          \<and> (\<exists>as bs. xs = as @ bs \<and> io_wf m' (as @ h # bs))" by (auto simp: hm0(1))
  have hook: "v3_hook_io_port dr dw m port rd wr priv h = Some (if ret \<noteq> 0 then -1 else 0, m')"
    using add by (simp add: v3_hook_io_port_def hk_def m0_def Let_def)
  show ?thesis
  proof (cases "ucast port \<in> io_port_of m0 ` set xs")
    case True
    then have "io_binding m xs (ucast port) \<noteq> None" using io_binding_None[of m0 xs] b0 by simp
    with True r hook wf0 b0 show ?thesis by auto
  next
    case False
    then have n: "io_binding m xs (ucast port) = None" using io_binding_None[of m0 xs] b0 by simp
    from False r obtain as bs where s: "ret = 0" "io_port_of m' = io_port_of m0" "io_payload m' = io_payload m0"
      "xs = as @ bs" "io_wf m' (as @ h # bs)" by auto
    have "io_binding m' (as @ bs) = io_binding m xs"
      using s b0 by (simp add: io_binding_def)
    with io_binding_insert[OF s(5)] s hm0
    have "io_binding m' (as @ h # bs) = (io_binding m xs)(ucast port \<mapsto> (if rd = 0 then dr else rd, if wr = 0 then dw else wr, priv))"
      by simp
    with s hm0(1) have "\<exists>as bs. xs = as @ bs \<and> io_wf m' (as @ h # bs) \<and> io_port_of m' h = ucast port
      \<and> io_binding m' (as @ h # bs)
         = (io_binding m xs)(ucast port \<mapsto> (if rd = 0 then dr else rd, if wr = 0 then dw else wr, priv))"
      by metis
    with n s(1) hook show ?thesis by simp
  qed
qed


lemma v3_unhook_io_port_wf:
  fixes port :: ushort_t
  assumes "io_wf m xs"
  shows "\<exists>ret m' xs'. v3_unhook_io_port m (ucast port) = Some (ret, m') \<and> io_wf m' xs'
    \<and> io_binding m' xs' = (io_binding m xs)(port := None)
    \<and> (if io_binding m xs port = None then ret = -1 \<and> m' = m else ret = 0)"
proof -
  have eq: "(\<lambda>x. ucast (io_port_of m x) = (ucast port :: uint_t)) = (\<lambda>x. io_port_of m x = port)"
    by (simp add: fun_eq_iff ucast_up_inj)
  show ?thesis
  proof (cases "find (\<lambda>x. io_port_of m x = port) xs")
    case None
    then have "io_binding m xs port = None" by (auto simp: io_binding_None find_None_iff)
    moreover have "v3_unhook_io_port m (ucast port) = Some (-1, m)"
      using io_wf_find[OF assms] None by (simp add: v3_unhook_io_port_def eq)
    ultimately show ?thesis using assms by (intro exI[of _ "-1"] exI[of _ m] exI[of _ xs]) (simp add: fun_upd_idem)
  next
    case (Some h)
    then have h: "h \<in> set xs" "io_port_of m h = port" by (auto simp: find_Some_iff)
    then obtain as bs where xs: "xs = as @ h # bs" by (meson split_list)
    from remove_io_hook_wf[of m as h bs] assms xs obtain m' where
      r: "remove_io_hook m h = (0, m')" "io_wf m' (as @ bs)" "io_port_of m' = io_port_of m" "io_payload m' = io_payload m"
      by blast
    have "h \<noteq> 0" using assms xs io_seg_nonzero by (auto simp: io_wf_def dest!: io_seg_nonzero)
    then have u: "v3_unhook_io_port m (ucast port) = Some (0, m')"
      using io_wf_find[OF assms] Some r(1) by (simp add: v3_unhook_io_port_def eq)
    have b: "io_binding m xs = (io_binding m (as @ bs))(port \<mapsto> io_payload m h)"
      using io_binding_insert[of m as h bs] assms xs h(2) by simp
    have "io_binding m (as @ bs) port = None"
      using io_wf_distinct_ports[OF assms] xs h(2) by (auto simp: io_binding_None)
    then have "io_binding m' (as @ bs) = (io_binding m xs)(port := None)"
      using r b by (auto simp: io_binding_def fun_eq_iff)
    then show ?thesis using u r b by auto
  qed
qed

definition demo_io_map :: vmm_io_map where
  "demo_io_map = \<lparr>num_ports = 2, io_head = 0x100,
     io_store = (\<lambda>p. if p = 0x100 then \<lparr>ioh_port = 0x20, ioh_read = 1, ioh_write = 2, ioh_priv_data = 9, ioh_next = 0x200, ioh_prev = 0\<rparr>
                     else \<lparr>ioh_port = 0xa0, ioh_read = 3, ioh_write = 4, ioh_priv_data = 9, ioh_next = 0, ioh_prev = 0x100\<rparr>)\<rparr>"

lemma demo_io_map_wf: "io_wf demo_io_map [0x100, 0x200]"
  by (simp add: io_wf_def demo_io_map_def io_port_of_def)

lemma demo_io_binding: "io_binding demo_io_map [0x100, 0x200] = [0x20 \<mapsto> (1, 2, 9), 0xa0 \<mapsto> (3, 4, 9)]"
  by (auto simp: io_binding_def demo_io_map_def io_port_of_def io_payload_def fun_eq_iff)

text \<open>C12: Hooking an I/O port ends and succeeds exactly when the port is free; then the list of hooks
  stays well linked and in port order and exactly that port is bound, with the default handler in
  place of a null one. A port that is taken is refused and every binding stays.\<close>

theorem v3_hook_io_port_spec:
  assumes "io_wf m xs" "h \<notin> set xs" "h \<noteq> 0"
  shows "\<exists>ret m' xs'. v3_hook_io_port dr dw m port rd wr priv h = Some (ret, m') \<and> io_wf m' xs'
    \<and> (if io_binding m xs (ucast port) \<noteq> None then ret = -1 \<and> io_binding m' xs' = io_binding m xs
       else ret = 0 \<and> io_binding m' xs' = (io_binding m xs)
              (ucast port \<mapsto> (if rd = 0 then dr else rd, if wr = 0 then dw else wr, priv)))"
proof (cases "io_binding m xs (ucast port) \<noteq> None")
  case True
  then show ?thesis using v3_hook_io_port_ok[OF assms, of dr dw port rd wr priv] by auto
next
  case False
  with v3_hook_io_port_ok[OF assms, of dr dw port rd wr priv] obtain m' as bs where
    "v3_hook_io_port dr dw m port rd wr priv h = Some (0, m')" "io_wf m' (as @ h # bs)"
    "io_binding m' (as @ h # bs) = (io_binding m xs)
              (ucast port \<mapsto> (if rd = 0 then dr else rd, if wr = 0 then dw else wr, priv))" by auto
  with False show ?thesis by (intro exI[of _ 0] exI[of _ m'] exI[of _ "as @ h # bs"]) simp
qed

lemma v3_hook_io_port_spec_witness:
  "\<exists>m' xs'. v3_hook_io_port 7 8 demo_io_map 0x60 0 5 6 0x300 = Some (0, m') \<and> io_wf m' xs'
     \<and> io_binding m' xs' 0x60 = Some (7, 5, 6)"
  using v3_hook_io_port_spec[OF demo_io_map_wf, of "0x300" 7 8 "0x60" 0 5 6]
  by (force simp: demo_io_binding)

text \<open>C17: Unhooking a 16-bit port ends, removes exactly its binding and keeps the list of hooks well
  linked; for a port that is not hooked it returns -1 and changes nothing.\<close>

theorem v3_unhook_io_port_spec:
  fixes port :: ushort_t
  assumes "io_wf m xs"
  shows "\<exists>ret m' xs'. v3_unhook_io_port m (ucast port) = Some (ret, m') \<and> io_wf m' xs'
    \<and> io_binding m' xs' = (io_binding m xs)(port := None)
    \<and> (if io_binding m xs port = None then ret = -1 \<and> m' = m else ret = 0)"
  by (rule v3_unhook_io_port_wf[OF assms])

lemma v3_unhook_io_port_spec_witness:
  "\<exists>m' xs'. v3_unhook_io_port demo_io_map 0xa0 = Some (0, m') \<and> io_wf m' xs'
     \<and> io_binding m' xs' = [0x20 \<mapsto> (1, 2, 9)]"
  using v3_unhook_io_port_spec[OF demo_io_map_wf, of "0xa0"]
  by (auto simp: demo_io_binding fun_upd_twist)



text \<open>C38: v3_print_io_map returns only for an empty table: its loop never advances the cursor.\<close>

theorem v3_print_io_map_loops:
  "v3_print_io_map m = (if io_head m = 0 then Some () else None)"
proof (cases "print_io_loop (io_store m) (io_head m)")
  case None
  then show ?thesis by (auto simp: v3_print_io_map_def print_io_loop.simps)
next
  case (Some u)
  then show ?thesis using print_io_loop_only_null[OF Some] by (simp add: v3_print_io_map_def)
qed

end
