(* ===== verification/V3_Dev_Mgr.thy ===== *)
theory V3_Dev_Mgr
  imports V3_List V3_IO
begin

text \<open>
  The device manager (\<^verbatim>\<open>src/palacios/vmm_dev_mgr.c\<close>, \<^verbatim>\<open>src/palacios/vm_dev.c\<close>). Devices
  and their port hooks are linked through \<open>list_head\<close> fields embedded in the structures; a node
  of such a list is the address of the structure plus the offset of the field in the 64-bit
  layout. All links are in one list heap, so a hook really is on the manager's list and on its
  device's list at the same time. Addresses returned by \<open>V3_Malloc\<close> are arguments. A device's
  \<open>init\<close> and \<open>deinit\<close> are found through its operations table and are arguments here.
\<close>

section \<open>Data\<close>

record dev_io_hook =
  dh_port :: ushort_t
  dh_read :: addr_t
  dh_write :: addr_t
  dh_dev :: addr_t

record vm_device =
  dv_name :: string
  dv_private_data :: addr_t
  dv_ops :: addr_t
  dv_vm :: addr_t
  dv_num_io_hooks :: uint_t
  dv_num_mem_hooks :: uint_t
  dv_num_irq_hooks :: uint_t

text \<open>The part of \<open>struct guest_info\<close> that devices work on; \<open>vm_self\<close> is its address and
  \<open>vm_dev_mgr\<close> the address of its \<open>dev_mgr\<close> field.\<close>

record vm_state =
  vm_self :: addr_t
  vm_dev_mgr :: addr_t
  mgr_num_devs :: uint_t
  mgr_num_io_hooks :: uint_t
  vm_links :: list_heap
  vm_hooks :: "addr_t \<Rightarrow> dev_io_hook"
  vm_devices :: "addr_t \<Rightarrow> vm_device"
  vm_io :: vmm_io_map

text \<open>Offsets of the embedded list nodes and list heads.\<close>

definition mgr_dev_list :: "'a vm_state_scheme \<Rightarrow> addr_t" where
  "mgr_dev_list vm = vm_dev_mgr vm + 8"

definition mgr_io_hooks :: "'a vm_state_scheme \<Rightarrow> addr_t" where
  "mgr_io_hooks vm = vm_dev_mgr vm + 32"

definition dev_link :: "addr_t \<Rightarrow> addr_t" where "dev_link dev = dev + 56"
definition dev_io_hooks :: "addr_t \<Rightarrow> addr_t" where "dev_io_hooks dev = dev + 80"
definition dev_mem_hooks :: "addr_t \<Rightarrow> addr_t" where "dev_mem_hooks dev = dev + 104"
definition dev_irq_hooks :: "addr_t \<Rightarrow> addr_t" where "dev_irq_hooks dev = dev + 128"
definition hook_dev_list :: "addr_t \<Rightarrow> addr_t" where "hook_dev_list hook = hook + 32"
definition hook_mgr_list :: "addr_t \<Rightarrow> addr_t" where "hook_mgr_list hook = hook + 48"

section \<open>Devices\<close>

text \<open>\<open>strncpy\<close> into the 32 zeroed bytes of the name.\<close>

definition dev_name_of :: "string \<Rightarrow> string" where
  "dev_name_of name = take 32 (takeWhile (\<lambda>c. c \<noteq> CHR 0x00) name)"

definition v3_allocate_device :: "addr_t \<Rightarrow> 'a vm_state_scheme \<Rightarrow> 'a vm_state_scheme option" where
  "v3_allocate_device dev vm =
     (if dev = 0 then None
      else Some (vm\<lparr>vm_devices := (vm_devices vm)(dev := \<lparr>dv_name = [], dv_private_data = 0, dv_ops = 0, dv_vm = 0,
                        dv_num_io_hooks = 0, dv_num_mem_hooks = 0, dv_num_irq_hooks = 0\<rparr>),
                    vm_links := INIT_LIST_HEAD (dev_irq_hooks dev) (INIT_LIST_HEAD (dev_mem_hooks dev)
                      (INIT_LIST_HEAD (dev_io_hooks dev) (vm_links vm)))\<rparr>))"

definition v3_create_device ::
  "string \<Rightarrow> addr_t \<Rightarrow> addr_t \<Rightarrow> addr_t \<Rightarrow> 'a vm_state_scheme \<Rightarrow> 'a vm_state_scheme option" where
  "v3_create_device name ops private_data dev vm =
     map_option (\<lambda>vm1. vm1\<lparr>vm_devices := (vm_devices vm1)(dev := (vm_devices vm1 dev)
                    \<lparr>dv_name := dev_name_of name, dv_ops := ops, dv_private_data := private_data\<rparr>)\<rparr>)
       (v3_allocate_device dev vm)"

section \<open>The manager\<close>

definition v3_init_dev_mgr :: "'a vm_state_scheme \<Rightarrow> int \<times> 'a vm_state_scheme" where
  "v3_init_dev_mgr vm =
     (let vm1 = vm\<lparr>vm_links := INIT_LIST_HEAD (mgr_dev_list vm) (vm_links vm), mgr_num_devs := 0\<rparr>
      in (0, vm1\<lparr>vm_links := INIT_LIST_HEAD (mgr_io_hooks vm) (vm_links vm1), mgr_num_io_hooks := 0\<rparr>))"

definition dev_mgr_add_device :: "addr_t \<Rightarrow> 'a vm_state_scheme \<Rightarrow> 'a vm_state_scheme" where
  "dev_mgr_add_device dev vm =
     vm\<lparr>vm_links := list_add (dev_link dev) (mgr_dev_list vm) (vm_links vm), mgr_num_devs := mgr_num_devs vm + 1\<rparr>"

definition dev_mgr_remove_device :: "addr_t \<Rightarrow> 'a vm_state_scheme \<Rightarrow> 'a vm_state_scheme" where
  "dev_mgr_remove_device dev vm =
     vm\<lparr>vm_links := list_del (dev_link dev) (vm_links vm), mgr_num_devs := mgr_num_devs vm - 1\<rparr>"

definition dev_mgr_add_io_hook :: "addr_t \<Rightarrow> 'a vm_state_scheme \<Rightarrow> 'a vm_state_scheme" where
  "dev_mgr_add_io_hook hook vm =
     vm\<lparr>vm_links := list_add (hook_mgr_list hook) (mgr_io_hooks vm) (vm_links vm),
        mgr_num_io_hooks := mgr_num_io_hooks vm + 1\<rparr>"

definition dev_mgr_remove_io_hook :: "addr_t \<Rightarrow> 'a vm_state_scheme \<Rightarrow> 'a vm_state_scheme" where
  "dev_mgr_remove_io_hook hook vm =
     vm\<lparr>vm_links := list_del (hook_mgr_list hook) (vm_links vm), mgr_num_io_hooks := mgr_num_io_hooks vm - 1\<rparr>"

definition dev_add_io_hook :: "addr_t \<Rightarrow> addr_t \<Rightarrow> 'a vm_state_scheme \<Rightarrow> 'a vm_state_scheme" where
  "dev_add_io_hook dev hook vm =
     vm\<lparr>vm_links := list_add (hook_dev_list hook) (dev_io_hooks dev) (vm_links vm),
        vm_devices := (vm_devices vm)(dev := (vm_devices vm dev)
          \<lparr>dv_num_io_hooks := dv_num_io_hooks (vm_devices vm dev) + 1\<rparr>)\<rparr>"

definition dev_remove_io_hook :: "addr_t \<Rightarrow> addr_t \<Rightarrow> 'a vm_state_scheme \<Rightarrow> 'a vm_state_scheme" where
  "dev_remove_io_hook dev hook vm =
     vm\<lparr>vm_links := list_del (hook_dev_list hook) (vm_links vm),
        vm_devices := (vm_devices vm)(dev := (vm_devices vm dev)
          \<lparr>dv_num_io_hooks := dv_num_io_hooks (vm_devices vm dev) - 1\<rparr>)\<rparr>"

text \<open>The hook found (0 for none); \<open>None\<close> only if the walk over a broken list does not end.\<close>

definition dev_mgr_find_io_hook :: "'a vm_state_scheme \<Rightarrow> ushort_t \<Rightarrow> addr_t option" where
  "dev_mgr_find_io_hook vm port =
     (case list_for_each (vm_links vm) (mgr_io_hooks vm) of
        None \<Rightarrow> None
      | Some nodes \<Rightarrow>
          Some (case find (\<lambda>tmp. dh_port (vm_hooks vm tmp) = port) (map (\<lambda>n. n - 48) nodes) of
                  None \<Rightarrow> 0 | Some tmp \<Rightarrow> tmp))"

definition v3_dev_hook_io ::
  "addr_t \<Rightarrow> addr_t \<Rightarrow> addr_t \<Rightarrow> ushort_t \<Rightarrow> addr_t \<Rightarrow> addr_t \<Rightarrow> addr_t \<Rightarrow> addr_t
    \<Rightarrow> 'a vm_state_scheme \<Rightarrow> (int \<times> 'a vm_state_scheme) option" where
  "v3_dev_hook_io dr dw dev port rd wr hook io_hook vm =
     (if hook = 0 then Some (-1, vm)
      else case v3_hook_io_port dr dw (vm_io vm) (ucast port) rd wr dev io_hook of
             None \<Rightarrow> None
           | Some (ret, io) \<Rightarrow>
               let vm1 = vm\<lparr>vm_io := io\<rparr>
               in if ret = 0
                  then let vm2 = vm1\<lparr>vm_hooks := (vm_hooks vm1)
                             (hook := \<lparr>dh_port = port, dh_read = rd, dh_write = wr, dh_dev = dev\<rparr>)\<rparr>;
                           vm3 = dev_mgr_add_io_hook hook vm2
                       in Some (0, dev_add_io_hook dev hook vm3)
                  else Some (-1, vm1))"

definition v3_dev_unhook_io :: "addr_t \<Rightarrow> ushort_t \<Rightarrow> 'a vm_state_scheme \<Rightarrow> (int \<times> 'a vm_state_scheme) option" where
  "v3_dev_unhook_io dev port vm =
     (case dev_mgr_find_io_hook vm port of
        None \<Rightarrow> None
      | Some hook \<Rightarrow>
          if hook = 0 then Some (-1, vm)
          else let vm1 = dev_mgr_remove_io_hook hook vm;
                   vm2 = dev_remove_io_hook dev hook vm1
               in map_option (\<lambda>(ret, io). (ret, vm2\<lparr>vm_io := io\<rparr>)) (v3_unhook_io_port (vm_io vm2) (ucast port)))"

text \<open>The sequences of hook and unhook calls of a device's \<open>init\<close> and \<open>deinit\<close>, which ignore their
  results: for each port the two handlers, the hook and the port table node.\<close>

fun dev_hook_ports ::
  "addr_t \<Rightarrow> addr_t \<Rightarrow> addr_t \<Rightarrow> (ushort_t \<times> addr_t \<times> addr_t \<times> addr_t \<times> addr_t) list
    \<Rightarrow> 'a vm_state_scheme \<Rightarrow> 'a vm_state_scheme option" where
  "dev_hook_ports dr dw dev [] vm = Some vm"
| "dev_hook_ports dr dw dev ((port, rd, wr, hook, io_hook) # ps) vm =
     (case v3_dev_hook_io dr dw dev port rd wr hook io_hook vm of
        None \<Rightarrow> None | Some (_, vm') \<Rightarrow> dev_hook_ports dr dw dev ps vm')"

fun dev_unhook_ports :: "addr_t \<Rightarrow> ushort_t list \<Rightarrow> 'a vm_state_scheme \<Rightarrow> 'a vm_state_scheme option" where
  "dev_unhook_ports dev [] vm = Some vm"
| "dev_unhook_ports dev (port # ps) vm =
     (case v3_dev_unhook_io dev port vm of None \<Rightarrow> None | Some (_, vm') \<Rightarrow> dev_unhook_ports dev ps vm')"

text \<open>The result of \<open>init\<close> and \<open>deinit\<close> is ignored by the code.\<close>

type_synonym 's dev_op = "addr_t \<Rightarrow> 's \<Rightarrow> (int \<times> 's) option"

definition set_dev_vm :: "addr_t \<Rightarrow> addr_t \<Rightarrow> 'a vm_state_scheme \<Rightarrow> 'a vm_state_scheme" where
  "set_dev_vm dev v vm = vm\<lparr>vm_devices := (vm_devices vm)(dev := (vm_devices vm dev)\<lparr>dv_vm := v\<rparr>)\<rparr>"

definition v3_attach_device ::
  "'a vm_state_scheme dev_op \<Rightarrow> addr_t \<Rightarrow> 'a vm_state_scheme \<Rightarrow> (int \<times> 'a vm_state_scheme) option" where
  "v3_attach_device init dev vm =
     map_option (\<lambda>(_, vm1). (0, vm1)) (init dev (dev_mgr_add_device dev (set_dev_vm dev (vm_self vm) vm)))"

definition v3_unattach_device ::
  "'a vm_state_scheme dev_op \<Rightarrow> addr_t \<Rightarrow> 'a vm_state_scheme \<Rightarrow> (int \<times> 'a vm_state_scheme) option" where
  "v3_unattach_device deinit dev vm =
     map_option (\<lambda>(_, vm1). (0, set_dev_vm dev 0 (dev_mgr_remove_device dev vm1))) (deinit dev vm)"

text \<open>\<open>list_for_each_entry_safe\<close> reads the next node before the body unlinks the current one. The
  device structures are freed as the loop goes; the second component lists them.\<close>

partial_function (option) deinit_loop ::
  "'a vm_state_scheme dev_op \<Rightarrow> addr_t \<Rightarrow> addr_t \<Rightarrow> 'a vm_state_scheme \<Rightarrow> addr_t list
    \<Rightarrow> ('a vm_state_scheme \<times> addr_t list) option" where
  "deinit_loop deinit head pos vm freed =
     (if pos = head then Some (vm, freed)
      else let tmp = lh_next (vm_links vm) pos; dev = pos - 56
           in Option.bind (v3_unattach_device deinit dev vm)
                (\<lambda>(_, vm1). deinit_loop deinit head tmp vm1 (freed @ [dev])))"

definition v3_dev_mgr_deinit ::
  "'a vm_state_scheme dev_op \<Rightarrow> 'a vm_state_scheme \<Rightarrow> (int \<times> 'a vm_state_scheme \<times> addr_t list) option" where
  "v3_dev_mgr_deinit deinit vm =
     map_option (Pair 0) (deinit_loop deinit (mgr_dev_list vm) (lh_next (vm_links vm) (mgr_dev_list vm)) vm [])"


section \<open>Consistency of the hook lists\<close>

text \<open>
  \<open>dm_ok vm dev hs ds xs\<close>: \<open>hs\<close> are the hooks on the manager's list, \<open>ds\<close> those on the list of
  \<open>dev\<close>, \<open>xs\<close> the nodes of the port table. The device's hooks are the manager's hooks for that
  device, no port occurs twice, every hooked port is bound in the port table, and both counts are
  right.
\<close>

definition dm_ok ::
  "'a vm_state_scheme \<Rightarrow> addr_t \<Rightarrow> addr_t list \<Rightarrow> addr_t list \<Rightarrow> addr_t list \<Rightarrow> bool" where
  "dm_ok vm dev hs ds xs \<longleftrightarrow>
     dlist (vm_links vm) (mgr_io_hooks vm) (map hook_mgr_list hs)
   \<and> dlist (vm_links vm) (dev_io_hooks dev) (map hook_dev_list ds)
   \<and> set (mgr_io_hooks vm # map hook_mgr_list hs) \<inter> set (dev_io_hooks dev # map hook_dev_list ds) = {}
   \<and> io_wf (vm_io vm) xs \<and> 0 \<notin> set hs
   \<and> set ds = {h \<in> set hs. dh_dev (vm_hooks vm h) = dev}
   \<and> distinct (map (\<lambda>h. dh_port (vm_hooks vm h)) hs)
   \<and> (\<forall>h \<in> set hs. io_binding (vm_io vm) xs (dh_port (vm_hooks vm h)) \<noteq> None)
   \<and> mgr_num_io_hooks vm = of_nat (length hs)
   \<and> dv_num_io_hooks (vm_devices vm dev) = of_nat (length ds)"

text \<open>What the code relies on in \<open>V3_Malloc\<close>: the new nodes are not part of any list.\<close>

definition dm_fresh :: "'a vm_state_scheme \<Rightarrow> addr_t \<Rightarrow> addr_t list \<Rightarrow> addr_t list \<Rightarrow> addr_t \<Rightarrow> bool" where
  "dm_fresh vm dev hs ds hook \<longleftrightarrow> hook \<noteq> 0 \<and> hook \<notin> set hs
     \<and> (\<forall>n \<in> {hook_mgr_list hook, hook_dev_list hook}.
          n \<notin> set (mgr_io_hooks vm # map hook_mgr_list hs) \<and> n \<notin> set (dev_io_hooks dev # map hook_dev_list ds))"

lemma hook_node_inj: "inj hook_mgr_list" "inj hook_dev_list"
  by (auto simp: inj_def hook_mgr_list_def hook_dev_list_def)

lemma hook_nodes_differ: "hook_mgr_list h \<noteq> hook_dev_list h"
  by (simp add: hook_mgr_list_def hook_dev_list_def)

lemma map_remove1_inj: "inj f \<Longrightarrow> map f (remove1 x xs) = remove1 (f x) (map f xs)"
  by (induction xs) (auto simp: inj_def)

lemma find_mgr_hook:
  assumes "dm_ok vm dev hs ds xs"
  shows "dev_mgr_find_io_hook vm port
       = Some (case find (\<lambda>h. dh_port (vm_hooks vm h) = port) hs of None \<Rightarrow> 0 | Some h \<Rightarrow> h)"
proof -
  have "list_for_each (vm_links vm) (mgr_io_hooks vm) = Some (map hook_mgr_list hs)"
    using assms by (auto simp: dm_ok_def intro: list_for_each_dlist)
  moreover have "map (\<lambda>n. n - 48) (map hook_mgr_list hs) = hs"
    by (simp add: hook_mgr_list_def comp_def)
  ultimately show ?thesis by (simp add: dev_mgr_find_io_hook_def del: map_map)
qed

lemma dm_hook_lists:
  assumes ok: "dm_ok vm dev hs ds xs" and fr: "dm_fresh vm dev hs ds hook"
    and vm': "vm' = dev_add_io_hook dev hook (dev_mgr_add_io_hook hook (vm\<lparr>vm_io := io,
           vm_hooks := (vm_hooks vm)(hook := \<lparr>dh_port = port, dh_read = rd, dh_write = wr, dh_dev = dev\<rparr>)\<rparr>))"
    and io: "io_wf io xs'" "io_binding io xs' = (io_binding (vm_io vm) xs)(port \<mapsto> b)"
    and free: "io_binding (vm_io vm) xs port = None"
  shows "dm_ok vm' dev (hook # hs) (hook # ds) xs'"
proof -
  let ?m = "hook_mgr_list hook" and ?d = "hook_dev_list hook"
  let ?h1 = "list_add ?m (mgr_io_hooks vm) (vm_links vm)"
  have d: "dlist (vm_links vm) (mgr_io_hooks vm) (map hook_mgr_list hs)"
    "dlist (vm_links vm) (dev_io_hooks dev) (map hook_dev_list ds)"
    "set (mgr_io_hooks vm # map hook_mgr_list hs) \<inter> set (dev_io_hooks dev # map hook_dev_list ds) = {}"
    using ok by (auto simp: dm_ok_def)
  have f: "?m \<notin> set (mgr_io_hooks vm # map hook_mgr_list hs)" "?m \<notin> set (dev_io_hooks dev # map hook_dev_list ds)"
    "?d \<notin> set (mgr_io_hooks vm # map hook_mgr_list hs)" "?d \<notin> set (dev_io_hooks dev # map hook_dev_list ds)"
    "hook \<notin> set hs" "hook \<noteq> 0"
    using fr by (auto simp: dm_fresh_def)
  have m1: "dlist ?h1 (mgr_io_hooks vm) (?m # map hook_mgr_list hs)" by (rule dlist_add[OF d(1) f(1)])
  have d1: "dlist ?h1 (dev_io_hooks dev) (map hook_dev_list ds)" by (rule dlist_add_other(1)[OF d f(2)])
  have d2: "dlist (list_add ?d (dev_io_hooks dev) ?h1) (dev_io_hooks dev) (?d # map hook_dev_list ds)"
    by (rule dlist_add[OF d1 f(4)])
  have m2: "dlist (list_add ?d (dev_io_hooks dev) ?h1) (mgr_io_hooks vm) (?m # map hook_mgr_list hs)"
    by (rule dlist_add_other(1)[OF d1 m1]) (use d(3) f hook_nodes_differ[of hook] in auto)
  have disj: "set (mgr_io_hooks vm # ?m # map hook_mgr_list hs) \<inter> set (dev_io_hooks dev # ?d # map hook_dev_list ds) = {}"
    using d(3) f hook_nodes_differ[of hook] by auto
  have heads: "mgr_io_hooks vm' = mgr_io_hooks vm" "vm_links vm' = list_add ?d (dev_io_hooks dev) ?h1"
    by (auto simp: vm' dev_add_io_hook_def dev_mgr_add_io_hook_def mgr_io_hooks_def)
  have rest: "vm_io vm' = io" "mgr_num_io_hooks vm' = mgr_num_io_hooks vm + 1"
    "dv_num_io_hooks (vm_devices vm' dev) = dv_num_io_hooks (vm_devices vm dev) + 1"
    "vm_hooks vm' = (vm_hooks vm)(hook := \<lparr>dh_port = port, dh_read = rd, dh_write = wr, dh_dev = dev\<rparr>)"
    by (auto simp: vm' dev_add_io_hook_def dev_mgr_add_io_hook_def)
  have ports: "port \<notin> (\<lambda>h. dh_port (vm_hooks vm h)) ` set hs" using ok free by (auto simp: dm_ok_def)
  have hk: "dh_port (vm_hooks vm' hook) = port" "dh_dev (vm_hooks vm' hook) = dev"
    "\<And>h. h \<in> set hs \<Longrightarrow> vm_hooks vm' h = vm_hooks vm h" using f(5) by (auto simp: rest(4))
  have dist: "distinct (map (\<lambda>h. dh_port (vm_hooks vm' h)) (hook # hs))"
    using ok ports hk by (auto simp: dm_ok_def cong: map_cong)
  have dset: "set (hook # ds) = {h \<in> set (hook # hs). dh_dev (vm_hooks vm' h) = dev}"
    using ok hk by (auto simp: dm_ok_def)
  have bind: "\<forall>h \<in> set (hook # hs). io_binding (vm_io vm') xs' (dh_port (vm_hooks vm' h)) \<noteq> None"
    using ok hk by (cases b) (simp add: dm_ok_def rest(1) io(2))
  show ?thesis
    unfolding dm_ok_def list.map heads
    using d2 m2 disj rest(1-3) io(1) dist dset bind f(6) ok by (simp add: dm_ok_def)
qed

lemma dm_unhook_lists:
  assumes ok: "dm_ok vm dev hs ds xs" and h: "h \<in> set ds"
    and vm': "vm' = (dev_remove_io_hook dev h (dev_mgr_remove_io_hook h vm))\<lparr>vm_io := io\<rparr>"
    and io: "io_wf io xs'" "io_binding io xs' = (io_binding (vm_io vm) xs)(dh_port (vm_hooks vm h) := None)"
  shows "dm_ok vm' dev (remove1 h hs) (remove1 h ds) xs'"
proof -
  let ?m = "hook_mgr_list h" and ?d = "hook_dev_list h"
  let ?h1 = "list_del ?m (vm_links vm)"
  have hh: "h \<in> set hs" using ok h by (auto simp: dm_ok_def)
  have d: "dlist (vm_links vm) (mgr_io_hooks vm) (map hook_mgr_list hs)"
    "dlist (vm_links vm) (dev_io_hooks dev) (map hook_dev_list ds)"
    "set (mgr_io_hooks vm # map hook_mgr_list hs) \<inter> set (dev_io_hooks dev # map hook_dev_list ds) = {}"
    using ok by (auto simp: dm_ok_def)
  have dh: "distinct hs" "distinct ds" using d(1,2) by (auto simp: dlist_def distinct_map)
  have m1: "dlist ?h1 (mgr_io_hooks vm) (map hook_mgr_list (remove1 h hs))"
    using dlist_del[OF d(1), of ?m] hh by (simp add: map_remove1_inj hook_node_inj)
  have d1: "dlist ?h1 (dev_io_hooks dev) (map hook_dev_list ds)"
    by (rule dlist_del_other[OF d(1) _ d(2,3)]) (use hh in auto)
  have disj: "set (mgr_io_hooks vm # map hook_mgr_list (remove1 h hs)) \<inter> set (dev_io_hooks dev # map hook_dev_list ds) = {}"
    using d(3) set_remove1_subset[of h hs] by (simp, blast)
  have d2: "dlist (list_del ?d ?h1) (dev_io_hooks dev) (map hook_dev_list (remove1 h ds))"
    using dlist_del[OF d1, of ?d] h by (simp add: map_remove1_inj hook_node_inj)
  have m2: "dlist (list_del ?d ?h1) (mgr_io_hooks vm) (map hook_mgr_list (remove1 h hs))"
    by (rule dlist_del_other[OF d1 _ m1]) (use h disj in auto)
  have disj2: "set (mgr_io_hooks vm # map hook_mgr_list (remove1 h hs)) \<inter> set (dev_io_hooks dev # map hook_dev_list (remove1 h ds)) = {}"
    using disj set_remove1_subset[of h ds] by (simp, blast)
  have eq: "vm_hooks vm' = vm_hooks vm" "vm_io vm' = io" "mgr_io_hooks vm' = mgr_io_hooks vm"
    "vm_links vm' = list_del ?d ?h1" "mgr_num_io_hooks vm' = mgr_num_io_hooks vm - 1"
    "dv_num_io_hooks (vm_devices vm' dev) = dv_num_io_hooks (vm_devices vm dev) - 1"
    by (auto simp: vm' dev_remove_io_hook_def dev_mgr_remove_io_hook_def mgr_io_hooks_def)
  have len: "length hs = Suc (length (remove1 h hs))" "length ds = Suc (length (remove1 h ds))"
    using hh h by (auto simp: length_remove1 dest: length_pos_if_in_set)
  have pd: "distinct (map (\<lambda>h. dh_port (vm_hooks vm h)) hs)" using ok by (simp add: dm_ok_def)
  have bind: "\<forall>x \<in> set (remove1 h hs). io_binding io xs' (dh_port (vm_hooks vm x)) \<noteq> None"
  proof
    fix x assume x: "x \<in> set (remove1 h hs)"
    then have xs: "x \<in> set hs" "x \<noteq> h" using dh(1) by auto
    then have "dh_port (vm_hooks vm x) \<noteq> dh_port (vm_hooks vm h)"
      using pd hh by (auto simp: distinct_map inj_on_def)
    then show "io_binding io xs' (dh_port (vm_hooks vm x)) \<noteq> None" using ok xs io(2) by (auto simp: dm_ok_def)
  qed
  have "distinct (map (\<lambda>h. dh_port (vm_hooks vm h)) (remove1 h hs))"
    using pd by (auto simp: distinct_map inj_on_def dest: subsetD[OF set_remove1_subset])
  moreover have "0 \<notin> set (remove1 h hs)" using ok set_remove1_subset[of h hs] by (auto simp: dm_ok_def)
  moreover have "set (remove1 h ds) = {x \<in> set (remove1 h hs). dh_dev (vm_hooks vm x) = dev}"
    using ok dh by (auto simp: dm_ok_def)
  moreover have "mgr_num_io_hooks vm' = of_nat (length (remove1 h hs))"
    "dv_num_io_hooks (vm_devices vm' dev) = of_nat (length (remove1 h ds))"
    using ok len by (auto simp: dm_ok_def eq)
  ultimately show ?thesis unfolding dm_ok_def using d2 m2 disj2 eq io(1) bind by simp
qed

lemma dlist_second:
  assumes "dlist h head (x # xs)"
  shows "lh_next h x = hd (xs @ [head])"
  using assms by (auto simp: dlist_def dest: dseg_first)

text \<open>What the loop over the devices needs from a \<open>deinit\<close> operation: it returns and leaves the
  list of devices, and where it is, alone.\<close>

definition keeps_devices :: "'a vm_state_scheme dev_op \<Rightarrow> bool" where
  "keeps_devices deinit \<longleftrightarrow> (\<forall>dev vm. \<exists>r vm'. deinit dev vm = Some (r, vm')
     \<and> vm_dev_mgr vm' = vm_dev_mgr vm \<and> mgr_num_devs vm' = mgr_num_devs vm
     \<and> (\<forall>ys. dlist (vm_links vm) (mgr_dev_list vm) ys \<longrightarrow> dlist (vm_links vm') (mgr_dev_list vm) ys))"

lemma keeps_devicesE:
  assumes "keeps_devices deinit"
  obtains r vm' where "deinit dev vm = Some (r, vm')" "vm_dev_mgr vm' = vm_dev_mgr vm"
    "mgr_num_devs vm' = mgr_num_devs vm"
    "\<And>ys. dlist (vm_links vm) (mgr_dev_list vm) ys \<Longrightarrow> dlist (vm_links vm') (mgr_dev_list vm) ys"
  using assms unfolding keeps_devices_def by blast

lemma deinit_loop_all:
  assumes "keeps_devices deinit" "dlist (vm_links vm) head (map dev_link devs)" "head = mgr_dev_list vm"
  shows "\<exists>vm'. deinit_loop deinit head (hd (map dev_link devs @ [head])) vm freed = Some (vm', freed @ devs)
    \<and> dlist (vm_links vm') head [] \<and> mgr_num_devs vm' = mgr_num_devs vm - of_nat (length devs)"
  using assms(2,3)
proof (induction devs arbitrary: vm freed)
  case Nil
  then show ?case by (simp add: deinit_loop.simps)
next
  case (Cons d devs)
  obtain r vm1 where k: "deinit d vm = Some (r, vm1)" "vm_dev_mgr vm1 = vm_dev_mgr vm" "mgr_num_devs vm1 = mgr_num_devs vm"
    "\<And>ys. dlist (vm_links vm) (mgr_dev_list vm) ys \<Longrightarrow> dlist (vm_links vm1) (mgr_dev_list vm) ys"
    using keeps_devicesE[OF assms(1)] by metis
  define vm2 where "vm2 = set_dev_vm d 0 (dev_mgr_remove_device d vm1)"
  have un: "v3_unattach_device deinit (dev_link d - 56) vm = Some (0, vm2)"
    using k(1) by (simp add: v3_unattach_device_def vm2_def dev_link_def)
  have "dlist (vm_links vm1) head (map dev_link (d # devs))" using k(4) Cons.prems by simp
  from dlist_del[OF this, of "dev_link d"]
  have ring: "dlist (vm_links vm2) head (map dev_link devs)" by (simp add: vm2_def set_dev_vm_def dev_mgr_remove_device_def)
  have head2: "head = mgr_dev_list vm2" and num: "mgr_num_devs vm2 = mgr_num_devs vm - 1"
    using k(2,3) Cons.prems(2) by (simp_all add: vm2_def set_dev_vm_def dev_mgr_remove_device_def mgr_dev_list_def)
  have nxt: "lh_next (vm_links vm) (dev_link d) = hd (map dev_link devs @ [head])"
    using dlist_second[of "vm_links vm" head "dev_link d" "map dev_link devs"] Cons.prems by simp
  have ne: "dev_link d \<noteq> head" using Cons.prems by (auto simp: dlist_def)
  have "deinit_loop deinit head (dev_link d) vm freed
      = deinit_loop deinit head (hd (map dev_link devs @ [head])) vm2 (freed @ [d])"
    using ne un nxt by (subst deinit_loop.simps) (simp add: Let_def dev_link_def)
  with Cons.IH[OF ring head2, of "freed @ [d]"] num show ?case by (auto simp: algebra_simps)
qed

section \<open>Properties\<close>

definition demo_vm0 :: vm_state where
  "demo_vm0 = \<lparr>vm_self = 0x900, vm_dev_mgr = 0x1000, mgr_num_devs = 9, mgr_num_io_hooks = 9,
     vm_links = \<lparr>lh_next = (\<lambda>_. 0), lh_prev = (\<lambda>_. 0)\<rparr>,
     vm_hooks = (\<lambda>_. \<lparr>dh_port = 0, dh_read = 0, dh_write = 0, dh_dev = 0\<rparr>),
     vm_devices = (\<lambda>_. \<lparr>dv_name = [], dv_private_data = 0, dv_ops = 0, dv_vm = 0,
        dv_num_io_hooks = 5, dv_num_mem_hooks = 0, dv_num_irq_hooks = 0\<rparr>),
     vm_io = v3_init_vmm_io_map \<lparr>num_ports = 3, io_head = 7, io_store = (\<lambda>_. \<lparr>ioh_port = 0, ioh_read = 0,
        ioh_write = 0, ioh_priv_data = 0, ioh_next = 0, ioh_prev = 0\<rparr>)\<rparr>\<rparr>"

definition demo_vm1 :: vm_state where
  "demo_vm1 = the (v3_create_device ''8259A'' 0x30 0x40 0x5000 (snd (v3_init_dev_mgr demo_vm0)))"

lemmas demo_vm_defs = demo_vm1_def demo_vm0_def v3_create_device_def v3_allocate_device_def v3_init_dev_mgr_def
  Let_def mgr_io_hooks_def mgr_dev_list_def dev_io_hooks_def dev_mem_hooks_def dev_irq_hooks_def

lemma demo_vm1_ok: "dm_ok demo_vm1 0x5000 [] [] []"
  by (simp add: dm_ok_def demo_vm_defs dlist_def INIT_LIST_HEAD_def set_next_def set_prev_def io_wf_def
      io_binding_def v3_init_vmm_io_map_def)

lemma demo_vm1_fresh: "dm_fresh demo_vm1 0x5000 [] [] 0x7000"
  by (simp add: dm_fresh_def demo_vm_defs hook_mgr_list_def hook_dev_list_def)

text \<open>C18: Hooking a port for a device succeeds exactly when the port is free. Then the hook is on the
  manager's list, on the device's list and in the port table, with the counts raised; otherwise no
  list and no binding changes.\<close>

theorem v3_dev_hook_io_spec:
  assumes ok: "dm_ok vm dev hs ds xs" and fr: "dm_fresh vm dev hs ds hook" and io: "io_hook \<notin> set xs" "io_hook \<noteq> 0"
  shows "\<exists>ret vm' xs'. v3_dev_hook_io dr dw dev port rd wr hook io_hook vm = Some (ret, vm')
    \<and> (if io_binding (vm_io vm) xs port \<noteq> None
       then ret = -1 \<and> dm_ok vm' dev hs ds xs' \<and> io_binding (vm_io vm') xs' = io_binding (vm_io vm) xs
       else ret = 0 \<and> dm_ok vm' dev (hook # hs) (hook # ds) xs'
          \<and> io_binding (vm_io vm') xs' port = Some (if rd = 0 then dr else rd, if wr = 0 then dw else wr, dev))"
proof -
  have nz: "hook \<noteq> 0" using fr by (simp add: dm_fresh_def)
  have wf: "io_wf (vm_io vm) xs" using ok by (simp add: dm_ok_def)
  have uc: "ucast (ucast port :: uint_t) = port" by (simp add: ucast_up_down)
  show ?thesis
  proof (cases "io_binding (vm_io vm) xs port = None")
    case False
    with v3_hook_io_port_ok[OF wf io, of dr dw "ucast port" rd wr dev] obtain io' where
      h: "v3_hook_io_port dr dw (vm_io vm) (ucast port) rd wr dev io_hook = Some (-1, io')" "io_wf io' xs"
      "io_binding io' xs = io_binding (vm_io vm) xs" by (auto simp: uc)
    have "dm_ok (vm\<lparr>vm_io := io'\<rparr>) dev hs ds xs" using ok h(2,3) by (auto simp: dm_ok_def mgr_io_hooks_def)
    with False h nz show ?thesis by (auto simp: v3_dev_hook_io_def Let_def)
  next
    case True
    with v3_hook_io_port_ok[OF wf io, of dr dw "ucast port" rd wr dev] obtain io' xs' where
      h: "v3_hook_io_port dr dw (vm_io vm) (ucast port) rd wr dev io_hook = Some (0, io')" "io_wf io' xs'"
      "io_binding io' xs' = (io_binding (vm_io vm) xs)(port \<mapsto> (if rd = 0 then dr else rd, if wr = 0 then dw else wr, dev))"
      by (auto simp: uc)
    let ?vm = "dev_add_io_hook dev hook (dev_mgr_add_io_hook hook (vm\<lparr>vm_io := io',
           vm_hooks := (vm_hooks vm)(hook := \<lparr>dh_port = port, dh_read = rd, dh_write = wr, dh_dev = dev\<rparr>)\<rparr>))"
    have "dm_ok ?vm dev (hook # hs) (hook # ds) xs'" by (rule dm_hook_lists[OF ok fr refl h(2,3) True])
    moreover have "vm_io ?vm = io'" by (simp add: dev_add_io_hook_def dev_mgr_add_io_hook_def)
    moreover have "v3_dev_hook_io dr dw dev port rd wr hook io_hook vm = Some (0, ?vm)"
      using h(1) nz by (simp add: v3_dev_hook_io_def Let_def)
    ultimately show ?thesis using True h(3) by (intro exI[of _ 0] exI[of _ ?vm] exI[of _ xs']) simp
  qed
qed

lemma v3_dev_hook_io_spec_witness:
  "\<exists>vm' xs'. v3_dev_hook_io 1 2 0x5000 0x20 3 4 0x7000 0x8000 demo_vm1 = Some (0, vm')
     \<and> dm_ok vm' 0x5000 [0x7000] [0x7000] xs' \<and> io_binding (vm_io vm') xs' 0x20 = Some (3, 4, 0x5000)"
  using v3_dev_hook_io_spec[OF demo_vm1_ok demo_vm1_fresh, of "0x8000" 1 2 "0x20" 3 4]
  by (simp add: io_binding_def)

text \<open>C26: Unhooking a port that the device has hooked takes the hook off the manager's list, off the
  device's list and out of the port table, and lowers the counts; nothing else changes.\<close>

theorem v3_dev_unhook_io_spec:
  assumes ok: "dm_ok vm dev hs ds xs" and h: "h \<in> set ds" "dh_port (vm_hooks vm h) = port"
  shows "\<exists>vm' xs'. v3_dev_unhook_io dev port vm = Some (0, vm')
    \<and> dm_ok vm' dev (remove1 h hs) (remove1 h ds) xs'
    \<and> io_binding (vm_io vm') xs' = (io_binding (vm_io vm) xs)(port := None)"
proof -
  have hs: "h \<in> set hs" "distinct (map (\<lambda>h. dh_port (vm_hooks vm h)) hs)" "h \<noteq> 0" "io_wf (vm_io vm) xs"
    "io_binding (vm_io vm) xs port \<noteq> None"
    using ok h by (auto simp: dm_ok_def)
  have "find (\<lambda>x. dh_port (vm_hooks vm x) = port) hs = Some h"
  proof (cases "find (\<lambda>x. dh_port (vm_hooks vm x) = port) hs")
    case None
    then show ?thesis using hs h by (auto simp: find_None_iff)
  next
    case (Some y)
    then have "y \<in> set hs" "dh_port (vm_hooks vm y) = port" by (auto simp: find_Some_iff)
    then show ?thesis using Some hs h(2) by (auto simp: distinct_map inj_on_def)
  qed
  then have f: "dev_mgr_find_io_hook vm port = Some h" using find_mgr_hook[OF ok, of port] by simp
  let ?vm2 = "dev_remove_io_hook dev h (dev_mgr_remove_io_hook h vm)"
  have io2: "vm_io ?vm2 = vm_io vm" by (simp add: dev_remove_io_hook_def dev_mgr_remove_io_hook_def)
  from v3_unhook_io_port_wf[OF hs(4), of port] hs(5) obtain io' xs' where
    u: "v3_unhook_io_port (vm_io vm) (ucast port) = Some (0, io')" "io_wf io' xs'"
      "io_binding io' xs' = (io_binding (vm_io vm) xs)(port := None)" by auto
  have "v3_dev_unhook_io dev port vm = Some (0, ?vm2\<lparr>vm_io := io'\<rparr>)"
    using f u(1) hs(3) io2 by (simp add: v3_dev_unhook_io_def Let_def)
  moreover have "dm_ok (?vm2\<lparr>vm_io := io'\<rparr>) dev (remove1 h hs) (remove1 h ds) xs'"
    by (rule dm_unhook_lists[OF ok h(1) refl u(2)]) (simp add: u(3) h(2))
  ultimately show ?thesis using u(3) by auto
qed


definition demo_vm2 :: vm_state where
  "demo_vm2 = dev_add_io_hook 0x5000 0x7000 (dev_mgr_add_io_hook 0x7000
     (demo_vm1\<lparr>vm_io := \<lparr>num_ports = 1, io_head = 0x8000, io_store = (\<lambda>_. \<lparr>ioh_port = 0x20, ioh_read = 3,
        ioh_write = 4, ioh_priv_data = 0x5000, ioh_next = 0, ioh_prev = 0\<rparr>)\<rparr>,
      vm_hooks := (vm_hooks demo_vm1)(0x7000 := \<lparr>dh_port = 0x20, dh_read = 3, dh_write = 4, dh_dev = 0x5000\<rparr>)\<rparr>))"

lemma demo_vm2_ok: "dm_ok demo_vm2 0x5000 [0x7000] [0x7000] [0x8000]"
proof (rule dm_hook_lists[OF demo_vm1_ok demo_vm1_fresh demo_vm2_def])
  show "io_binding \<lparr>num_ports = 1, io_head = 0x8000, io_store = (\<lambda>_. \<lparr>ioh_port = 0x20, ioh_read = 3,
        ioh_write = 4, ioh_priv_data = 0x5000, ioh_next = 0, ioh_prev = 0\<rparr>)\<rparr> [0x8000]
      = (io_binding (vm_io demo_vm1) [])(0x20 \<mapsto> (3, 4, 0x5000))"
    by (simp add: io_binding_def io_port_of_def io_payload_def)
qed (simp_all add: io_wf_def io_binding_def io_port_of_def)

lemma v3_dev_unhook_io_spec_witness:
  "\<exists>vm' xs'. v3_dev_unhook_io 0x5000 0x20 demo_vm2 = Some (0, vm') \<and> dm_ok vm' 0x5000 [] [] xs'"
  using v3_dev_unhook_io_spec[OF demo_vm2_ok, of "0x7000" "0x20"]
  by (auto simp: demo_vm2_def dev_add_io_hook_def dev_mgr_add_io_hook_def)



end
