(* ===== verification/V3_Intr.thy ===== *)
theory V3_Intr
  imports V3_Prelude
begin

text \<open>
  Interrupt state of the guest (\<^verbatim>\<open>src/palacios/vmm_intr.c\<close>) and the injection at the end of an
  SVM exit (\<^verbatim>\<open>src/palacios/svm_handler.c\<close>). The interrupt controller is a table of operations
  on its private state, as in \<open>struct intr_ctrl_ops\<close>. \<open>None\<close> is the result of an operation that has
  no defined one: a failed \<open>V3_ASSERT\<close> (which never returns), a null controller that is
  dereferenced, an access past the array of hooks. The locale \<open>intr_controller\<close> states what the
  injection relies on.
\<close>

section \<open>Data\<close>

datatype intr_type = INVALID_INTR | EXTERNAL_IRQ | NMI | EXCEPTION | SOFTWARE_INTR | VIRTUAL_INTR

record 'c intr_ctrl_ops =
  intr_pending :: "'c \<Rightarrow> int"
  get_intr_number :: "'c \<Rightarrow> int"
  raise_intr :: "'c \<Rightarrow> int \<Rightarrow> (int \<times> 'c) option"
  lower_intr :: "'c \<Rightarrow> int \<Rightarrow> (int \<times> 'c) option"
  begin_irq :: "'c \<Rightarrow> int \<Rightarrow> int \<times> 'c"

text \<open>A hook's handler is either the one of this file or some function at an address.\<close>

datatype irq_handler = passthrough_irq_handler | irq_handler_at addr_t

record v3_irq_hook =
  ih_handler :: irq_handler
  ih_priv_data :: addr_t

record 'c v3_intr_state =
  excp_pending :: uint_t
  excp_num :: uint_t
  excp_error_code_valid :: bool
  excp_error_code :: uint_t
  controller :: "'c intr_ctrl_ops option"
  controller_state :: 'c
  irq_hooks :: "v3_irq_hook option list"

definition PF_EXCEPTION :: uint_t where "PF_EXCEPTION = 0x0e"
definition MC_EXCEPTION :: uint_t where "MC_EXCEPTION = 0x12"

section \<open>Operations\<close>

definition v3_init_interrupt_state :: "'c v3_intr_state \<Rightarrow> 'c v3_intr_state" where
  "v3_init_interrupt_state info =
     info\<lparr>excp_pending := 0, excp_num := 0, excp_error_code := 0, irq_hooks := replicate 256 None\<rparr>"

definition v3_set_intr_controller :: "'c v3_intr_state \<Rightarrow> 'c intr_ctrl_ops \<Rightarrow> 'c \<Rightarrow> 'c v3_intr_state" where
  "v3_set_intr_controller info ops state = info\<lparr>controller := Some ops, controller_state := state\<rparr>"

definition get_irq_hook :: "'c v3_intr_state \<Rightarrow> uint_t \<Rightarrow> v3_irq_hook option option" where
  "get_irq_hook info irq =
     (if \<not> irq \<le> 256 then None
      else if length (irq_hooks info) \<le> unat irq then None
      else Some (irq_hooks info ! unat irq))"

text \<open>\<open>hook_interrupt irq\<close> is what the host's \<open>V3_Hook_Interrupt\<close> returns.\<close>

definition v3_hook_irq ::
  "(uint_t \<Rightarrow> int) \<Rightarrow> 'c v3_intr_state \<Rightarrow> uint_t \<Rightarrow> irq_handler \<Rightarrow> addr_t \<Rightarrow> bool
    \<Rightarrow> (int \<times> 'c v3_intr_state) option" where
  "v3_hook_irq hook_interrupt info irq handler priv_data malloc_ok =
     (if \<not> malloc_ok then Some (-1, info)
      else case get_irq_hook info irq of
             None \<Rightarrow> None
           | Some (Some _) \<Rightarrow> Some (-1, info)
           | Some None \<Rightarrow>
               let hook = \<lparr>ih_handler = handler, ih_priv_data = priv_data\<rparr>;
                   info1 = info\<lparr>irq_hooks := (irq_hooks info)[unat irq := Some hook]\<rparr>
               in Some (if hook_interrupt irq \<noteq> 0 then -1 else 0, info1))"

definition v3_hook_passthrough_irq ::
  "(uint_t \<Rightarrow> int) \<Rightarrow> 'c v3_intr_state \<Rightarrow> uint_t \<Rightarrow> bool \<Rightarrow> (int \<times> 'c v3_intr_state) option" where
  "v3_hook_passthrough_irq hook_interrupt info irq malloc_ok =
     map_option (\<lambda>(rc, info'). (if rc \<noteq> 0 then -1 else 0, info'))
       (v3_hook_irq hook_interrupt info irq passthrough_irq_handler 0 malloc_ok)"

definition v3_raise_irq :: "'c v3_intr_state \<Rightarrow> int \<Rightarrow> (int \<times> 'c v3_intr_state) option" where
  "v3_raise_irq info irq =
     (case controller info of
        None \<Rightarrow> None
      | Some ops \<Rightarrow> map_option (\<lambda>(_, c). (0, info\<lparr>controller_state := c\<rparr>))
                      (raise_intr ops (controller_state info) irq))"

definition v3_lower_irq :: "'c v3_intr_state \<Rightarrow> int \<Rightarrow> (int \<times> 'c v3_intr_state) option" where
  "v3_lower_irq info irq =
     (case controller info of
        None \<Rightarrow> None
      | Some ops \<Rightarrow> map_option (\<lambda>(_, c). (0, info\<lparr>controller_state := c\<rparr>))
                      (lower_intr ops (controller_state info) irq))"

text \<open>\<open>run\<close> runs a handler that is not part of this file. The irq is the \<open>uint_t\<close> of the host's
  \<open>struct v3_interrupt\<close>, passed on as an \<open>int\<close>.\<close>

definition v3_deliver_irq ::
  "(addr_t \<Rightarrow> 'c v3_intr_state \<Rightarrow> uint_t \<Rightarrow> addr_t \<Rightarrow> (int \<times> 'c v3_intr_state) option)
    \<Rightarrow> 'c v3_intr_state \<Rightarrow> uint_t \<Rightarrow> (int \<times> 'c v3_intr_state) option" where
  "v3_deliver_irq run info irq =
     (case get_irq_hook info irq of
        None \<Rightarrow> None
      | Some None \<Rightarrow> Some (-1, info)
      | Some (Some hook) \<Rightarrow>
          (case ih_handler hook of
             passthrough_irq_handler \<Rightarrow> v3_raise_irq info (sint irq)
           | irq_handler_at a \<Rightarrow> run a info irq (ih_priv_data hook)))"

definition v3_raise_exception_with_error ::
  "'c v3_intr_state \<Rightarrow> uint_t \<Rightarrow> uint_t \<Rightarrow> int \<times> 'c v3_intr_state" where
  "v3_raise_exception_with_error info excp error_code =
     (if excp_pending info = 0
      then (0, info\<lparr>excp_pending := 1, excp_num := excp, excp_error_code := error_code,
                    excp_error_code_valid := True\<rparr>)
      else (-1, info))"

definition v3_raise_exception :: "'c v3_intr_state \<Rightarrow> uint_t \<Rightarrow> int \<times> 'c v3_intr_state" where
  "v3_raise_exception info excp =
     (if excp_pending info = 0
      then (0, info\<lparr>excp_pending := 1, excp_num := excp, excp_error_code := 0,
                    excp_error_code_valid := False\<rparr>)
      else (-1, info))"

definition v3_intr_pending :: "'c v3_intr_state \<Rightarrow> int option" where
  "v3_intr_pending info =
     (if excp_pending info = 1 then Some 1
      else case controller info of
             None \<Rightarrow> None
           | Some ops \<Rightarrow> if intr_pending ops (controller_state info) = 1 then Some 1 else Some 0)"

definition v3_get_intr_number :: "'c v3_intr_state \<Rightarrow> uint_t option" where
  "v3_get_intr_number info =
     (if excp_pending info = 1 then Some (excp_num info)
      else case controller info of
             None \<Rightarrow> None
           | Some ops \<Rightarrow> if intr_pending ops (controller_state info) \<noteq> 0
                         then Some (of_int (get_intr_number ops (controller_state info)))
                         else Some 0)"

definition v3_get_intr_type :: "'c v3_intr_state \<Rightarrow> intr_type option" where
  "v3_get_intr_type info =
     (if excp_pending info \<noteq> 0 then Some EXCEPTION
      else case controller info of
             None \<Rightarrow> None
           | Some ops \<Rightarrow> if intr_pending ops (controller_state info) \<noteq> 0
                         then Some EXTERNAL_IRQ else Some INVALID_INTR)"

definition v3_injecting_intr ::
  "'c v3_intr_state \<Rightarrow> uint_t \<Rightarrow> intr_type \<Rightarrow> (int \<times> 'c v3_intr_state) option" where
  "v3_injecting_intr info intr_num type =
     (case type of
        EXCEPTION \<Rightarrow> Some (0, info\<lparr>excp_pending := 0, excp_num := 0, excp_error_code := 0,
                                   excp_error_code_valid := False\<rparr>)
      | EXTERNAL_IRQ \<Rightarrow>
          (case controller info of
             None \<Rightarrow> None
           | Some ops \<Rightarrow> (case begin_irq ops (controller_state info) (sint intr_num) of
                            (ret, c) \<Rightarrow> Some (ret, info\<lparr>controller_state := c\<rparr>)))
      | _ \<Rightarrow> Some (0, info))"

section \<open>Injection at the end of an exit\<close>

text \<open>The injection fields of the VMCB control area that the code writes.\<close>

record vmcb_inject =
  V_IRQ :: bool
  V_INTR_VECTOR :: uchar_t
  V_IGN_TPR :: bool
  V_INTR_PRIO :: uchar_t
  ei_vector :: uchar_t
  ei_type :: uchar_t
  ei_ev :: bool
  ei_valid :: bool
  ei_error_code :: uint_t

definition SVM_INJECTION_NMI :: uchar_t where "SVM_INJECTION_NMI = 2"
definition SVM_INJECTION_EXCEPTION :: uchar_t where "SVM_INJECTION_EXCEPTION = 3"
definition SVM_INJECTION_SOFT_INTR :: uchar_t where "SVM_INJECTION_SOFT_INTR = 4"

definition svm_inject ::
  "'c v3_intr_state \<Rightarrow> vmcb_inject \<Rightarrow> (int \<times> 'c v3_intr_state \<times> vmcb_inject) option" where
  "svm_inject info ctrl =
     (case v3_intr_pending info of
        None \<Rightarrow> None
      | Some p \<Rightarrow>
          if p = 0 then Some (0, info, ctrl)
          else (case v3_get_intr_type info of
                  None \<Rightarrow> None
                | Some EXTERNAL_IRQ \<Rightarrow>
                    (case v3_get_intr_number info of
                       None \<Rightarrow> None
                     | Some irq \<Rightarrow>
                         let ctrl' = ctrl\<lparr>V_IRQ := True, V_INTR_VECTOR := ucast irq, V_IGN_TPR := True, V_INTR_PRIO := 0xf\<rparr>
                         in map_option (\<lambda>(_, info'). (0, info', ctrl')) (v3_injecting_intr info irq EXTERNAL_IRQ))
                | Some NMI \<Rightarrow> Some (0, info, ctrl\<lparr>ei_type := SVM_INJECTION_NMI\<rparr>)
                | Some EXCEPTION \<Rightarrow>
                    (case v3_get_intr_number info of
                       None \<Rightarrow> None
                     | Some excp \<Rightarrow>
                         let ctrl1 = ctrl\<lparr>ei_type := SVM_INJECTION_EXCEPTION\<rparr>;
                             ctrl2 = (if excp_error_code_valid info
                                      then ctrl1\<lparr>ei_error_code := excp_error_code info, ei_ev := True\<rparr>
                                      else ctrl1);
                             ctrl3 = ctrl2\<lparr>ei_vector := ucast excp, ei_valid := True\<rparr>
                         in map_option (\<lambda>(_, info'). (0, info', ctrl3)) (v3_injecting_intr info excp EXCEPTION))
                | Some SOFTWARE_INTR \<Rightarrow> Some (0, info, ctrl\<lparr>ei_type := SVM_INJECTION_SOFT_INTR\<rparr>)
                | Some VIRTUAL_INTR \<Rightarrow> Some (0, info, ctrl\<lparr>ei_type := 0\<rparr>)
                | Some INVALID_INTR \<Rightarrow> Some (-1, info, ctrl)))"


section \<open>The contract of an interrupt controller\<close>

text \<open>
  What the injection relies on: the controller answers "pending" with 0 or 1, gives a vector for a
  pending interrupt, and beginning that interrupt succeeds and leaves fewer interrupts waiting.
\<close>

locale intr_controller =
  fixes ops :: "'c intr_ctrl_ops"
    and invar :: "'c \<Rightarrow> bool"
    and waiting :: "'c \<Rightarrow> nat"
  assumes pending_01: "intr_pending ops c = 0 \<or> intr_pending ops c = 1"
    and number_range: "invar c \<Longrightarrow> intr_pending ops c = 1 \<Longrightarrow>
          0 \<le> get_intr_number ops c \<and> get_intr_number ops c < 2 ^ 31"
    and begin_ok: "invar c \<Longrightarrow> intr_pending ops c = 1 \<Longrightarrow>
          \<exists>c'. begin_irq ops c (get_intr_number ops c) = (0, c') \<and> invar c' \<and> waiting c' < waiting c"
begin

text \<open>A guest state whose exception flag is 0 or 1 and whose controller is this one.\<close>

definition attached :: "'c v3_intr_state \<Rightarrow> bool" where
  "attached info \<longleftrightarrow> controller info = Some ops \<and> invar (controller_state info) \<and> excp_pending info \<in> {0, 1}"

definition backlog :: "'c v3_intr_state \<Rightarrow> nat" where
  "backlog info = unat (excp_pending info) + waiting (controller_state info)"

lemma inject_step:
  assumes "attached info" "v3_intr_pending info = Some 1"
  shows "\<exists>info' ctrl'. svm_inject info ctrl = Some (0, info', ctrl') \<and> attached info' \<and> backlog info' < backlog info"
proof (cases "excp_pending info = 1")
  case True
  then show ?thesis using assms
    by (auto simp: svm_inject_def v3_get_intr_type_def v3_get_intr_number_def v3_injecting_intr_def Let_def
        attached_def backlog_def)
next
  case False
  let ?c = "controller_state info" and ?n = "get_intr_number ops (controller_state info)"
  have a: "controller info = Some ops" "invar ?c" "excp_pending info = 0" using assms(1) False by (auto simp: attached_def)
  have p: "intr_pending ops ?c = 1" using assms(2) a by (auto simp: v3_intr_pending_def split: if_splits)
  from begin_ok[OF a(2) p] obtain c' where c': "begin_irq ops ?c ?n = (0, c')" "invar c'" "waiting c' < waiting ?c" by auto
  have n: "sint (of_int ?n :: uint_t) = ?n"
    using number_range[OF a(2) p] by (simp add: sint_word_ariths signed_of_int signed_take_bit_int_eq_self)
  show ?thesis using a p c' n
    by (auto simp: svm_inject_def v3_intr_pending_def v3_get_intr_type_def v3_get_intr_number_def
        v3_injecting_intr_def Let_def attached_def backlog_def)
qed

lemma inject_idle:
  assumes "attached info" "v3_intr_pending info \<noteq> Some 1"
  shows "svm_inject info ctrl = Some (0, info, ctrl)"
  using assms by (auto simp: svm_inject_def v3_intr_pending_def attached_def split: if_splits)

end

text \<open>Exits one after the other, with no new interrupt in between.\<close>

fun svm_inject_n ::
  "nat \<Rightarrow> 'c v3_intr_state \<Rightarrow> vmcb_inject \<Rightarrow> (int \<times> 'c v3_intr_state \<times> vmcb_inject) option" where
  "svm_inject_n 0 info ctrl = Some (0, info, ctrl)"
| "svm_inject_n (Suc n) info ctrl =
     (case svm_inject info ctrl of
        None \<Rightarrow> None
      | Some (ret, info', ctrl') \<Rightarrow> if ret = 0 then svm_inject_n n info' ctrl' else Some (ret, info', ctrl'))"

context intr_controller begin

lemma inject_drains:
  assumes "attached info" "backlog info \<le> n"
  shows "\<exists>info' ctrl'. svm_inject_n n info ctrl = Some (0, info', ctrl') \<and> v3_intr_pending info' = Some 0"
  using assms
proof (induction n arbitrary: info ctrl)
  case 0
  then have "v3_intr_pending info \<noteq> Some 1" using inject_step[OF 0(1)] by force
  with 0 show ?case by (auto simp: v3_intr_pending_def attached_def split: if_splits)
next
  case (Suc n)
  show ?case
  proof (cases "v3_intr_pending info = Some 1")
    case True
    from inject_step[OF Suc.prems(1) this, of ctrl] obtain info' ctrl' where
      "svm_inject info ctrl = Some (0, info', ctrl')" "attached info'" "backlog info' < backlog info" by auto
    with Suc.IH[of info' ctrl'] Suc.prems(2) show ?thesis by auto
  next
    case False
    then have idle: "v3_intr_pending info = Some 0"
      using Suc.prems(1) by (auto simp: v3_intr_pending_def attached_def split: if_splits)
    have stay: "svm_inject_n k info ctrl = Some (0, info, ctrl)" for k
      by (induction k) (simp_all add: inject_idle[OF Suc.prems(1) False])
    show ?thesis using stay[of "Suc n"] idle by auto
  qed
qed

end

section \<open>Properties\<close>

text \<open>C28: An exception can be raised exactly when none is pending: raising it then makes it the next
  thing the exit injects, with its number and, only in the variant with an error code, its error code;
  a second exception is refused and the first one stays.\<close>

theorem v3_raise_exception_injected:
  assumes "excp_pending info = 0"
  shows "\<exists>info1 info2 ctrl'.
      v3_raise_exception_with_error info excp err = (0, info1)
    \<and> fst (v3_raise_exception_with_error info1 excp2 err2) = -1
    \<and> snd (v3_raise_exception_with_error info1 excp2 err2) = info1
    \<and> fst (v3_raise_exception info1 excp2) = -1
    \<and> svm_inject info1 ctrl = Some (0, info2, ctrl')
    \<and> ei_valid ctrl' \<and> ei_ev ctrl' \<and> ei_error_code ctrl' = err \<and> ei_vector ctrl' = ucast excp
    \<and> excp_pending info2 = 0 \<and> controller_state info2 = controller_state info"
  using assms
  by (auto simp: v3_raise_exception_with_error_def v3_raise_exception_def svm_inject_def v3_intr_pending_def
      v3_get_intr_type_def v3_get_intr_number_def v3_injecting_intr_def Let_def)

definition demo_intr_state :: "unit v3_intr_state" where
  "demo_intr_state = v3_init_interrupt_state \<lparr>excp_pending = 3, excp_num = 0, excp_error_code_valid = True,
     excp_error_code = 0, controller = None, controller_state = (), irq_hooks = []\<rparr>"

definition demo_vmcb :: vmcb_inject where
  "demo_vmcb = \<lparr>V_IRQ = False, V_INTR_VECTOR = 0, V_IGN_TPR = False, V_INTR_PRIO = 0, ei_vector = 0, ei_type = 0,
     ei_ev = False, ei_valid = False, ei_error_code = 0\<rparr>"

lemma v3_raise_exception_injected_witness:
  "\<exists>info1 info2 ctrl'. v3_raise_exception_with_error demo_intr_state 14 2 = (0, info1)
     \<and> svm_inject info1 demo_vmcb = Some (0, info2, ctrl') \<and> ei_vector ctrl' = 14 \<and> ei_error_code ctrl' = 2"
  using v3_raise_exception_injected[of demo_intr_state 14 2 0 0 demo_vmcb]
  by (force simp: demo_intr_state_def v3_init_interrupt_state_def)

text \<open>C29: An irq below 256 can be hooked once; a delivery then runs its handler (the passthrough
  handler raises the irq in the controller), a second hook is refused and keeps the first, and other
  irqs are untouched.\<close>

theorem v3_hook_irq_deliver:
  assumes "length (irq_hooks info) = 256" "irq < 256" "irq_hooks info ! unat irq = None" "hook_interrupt irq = 0"
  shows "\<exists>info'. v3_hook_irq hook_interrupt info irq handler priv True = Some (0, info')
    \<and> v3_deliver_irq run info' irq = (case handler of passthrough_irq_handler \<Rightarrow> v3_raise_irq info' (sint irq)
                                        | irq_handler_at a \<Rightarrow> run a info' irq priv)
    \<and> v3_hook_irq hook_interrupt info' irq handler2 priv2 True = Some (-1, info')
    \<and> (\<forall>k < 256. k \<noteq> irq \<longrightarrow> get_irq_hook info' k = get_irq_hook info k)"
proof -
  have "unat irq < 256" using assms(2) by (simp add: word_less_nat_alt)
  moreover have "unat irq = unat k \<longleftrightarrow> irq = k" for k by (simp add: word_unat_eq_iff)
  ultimately show ?thesis using assms
    by (auto simp: v3_hook_irq_def get_irq_hook_def v3_deliver_irq_def Let_def nth_list_update not_le
        word_less_nat_alt split: irq_handler.splits)
qed

lemma v3_hook_irq_deliver_witness:
  "\<exists>info'. v3_hook_irq (\<lambda>_. 0) demo_intr_state 14 (irq_handler_at 0x99) 5 True = Some (0, info')
     \<and> v3_deliver_irq (\<lambda>a i irq p. Some (int (unat a), i)) info' 14 = Some (0x99, info')"
  using v3_hook_irq_deliver[of demo_intr_state 14 "\<lambda>_. 0" "irq_handler_at 0x99" 5 "\<lambda>a i irq p. Some (int (unat a), i)"
      passthrough_irq_handler 0]
  by (auto simp: demo_intr_state_def v3_init_interrupt_state_def)

end
