(* ===== verification/V3_PIC.thy ===== *)
theory V3_PIC
  imports V3_Dev_Mgr V3_Intr
begin

text \<open>
  The 8259A interrupt controller pair (\<^verbatim>\<open>src/devices/8259a.c\<close>): the operations it gives to
  \<^verbatim>\<open>vmm_intr.c\<close> and its four I/O ports. A port handler returns its status with what it stores
  through \<open>dst\<close> (\<open>None\<close>: nothing) or with the new state; \<open>len\<close> is the length of the access.
\<close>

section \<open>Data\<close>

datatype pic_state_t = RESET | ICW1 | ICW2 | ICW3 | ICW4 | READY

record pic_internal =
  master_irr :: uchar_t
  slave_irr :: uchar_t
  master_isr :: uchar_t
  slave_isr :: uchar_t
  master_icw1 :: uchar_t
  master_icw2 :: uchar_t
  master_icw3 :: uchar_t
  master_icw4 :: uchar_t
  slave_icw1 :: uchar_t
  slave_icw2 :: uchar_t
  slave_icw3 :: uchar_t
  slave_icw4 :: uchar_t
  master_imr :: uchar_t
  slave_imr :: uchar_t
  master_ocw2 :: uchar_t
  master_ocw3 :: uchar_t
  slave_ocw2 :: uchar_t
  slave_ocw3 :: uchar_t
  master_state :: pic_state_t
  slave_state :: pic_state_t

definition MASTER_PORT1 :: ushort_t where "MASTER_PORT1 = 0x20"
definition MASTER_PORT2 :: ushort_t where "MASTER_PORT2 = 0x21"
definition SLAVE_PORT1 :: ushort_t where "SLAVE_PORT1 = 0xA0"
definition SLAVE_PORT2 :: ushort_t where "SLAVE_PORT2 = 0xA1"

definition IS_ICW1 :: "uchar_t \<Rightarrow> bool" where "IS_ICW1 x \<longleftrightarrow> drop_bit 4 (x AND 0x10) = 0x1"
definition IS_OCW2 :: "uchar_t \<Rightarrow> bool" where "IS_OCW2 x \<longleftrightarrow> drop_bit 3 (x AND 0x18) = 0x0"
definition IS_OCW3 :: "uchar_t \<Rightarrow> bool" where "IS_OCW3 x \<longleftrightarrow> drop_bit 3 (x AND 0x18) = 0x1"

text \<open>The bit-fields of the command words that the code reads.\<close>

definition icw1_ic4 :: "uchar_t \<Rightarrow> bool" where "icw1_ic4 cw = bf_flag 0 cw"
definition icw1_sngl :: "uchar_t \<Rightarrow> bool" where "icw1_sngl cw = bf_flag 1 cw"
definition ocw2_level :: "uchar_t \<Rightarrow> nat" where "ocw2_level cw = unat (bf_get 0 3 cw)"
definition ocw2_EOI :: "uchar_t \<Rightarrow> bool" where "ocw2_EOI cw = bf_flag 5 cw"
definition ocw2_SL :: "uchar_t \<Rightarrow> bool" where "ocw2_SL cw = bf_flag 6 cw"
definition ocw2_R :: "uchar_t \<Rightarrow> bool" where "ocw2_R cw = bf_flag 7 cw"

section \<open>Controller operations\<close>

text \<open>A negative irq would shift by a negative amount, which C leaves undefined.\<close>

definition pic_raise_intr :: "pic_internal \<Rightarrow> int \<Rightarrow> (int \<times> pic_internal) option" where
  "pic_raise_intr state irq0 =
     (let irq = (if irq0 = 2 then 9 else irq0);
          state1 = (if irq0 = 2 then state\<lparr>master_irr := master_irr state OR 0x04\<rparr> else state)
      in if irq < 0 then None
         else if irq \<le> 7 then
           Some (0, state1\<lparr>master_irr := master_irr state1 OR push_bit (nat irq) 1\<rparr>)
         else if irq > 7 \<and> irq < 16 then
           Some (0, state1\<lparr>slave_irr := slave_irr state1 OR push_bit (nat (irq - 8)) 1\<rparr>)
         else Some (-1, state1))"

definition pic_lower_intr :: "pic_internal \<Rightarrow> int \<Rightarrow> (int \<times> pic_internal) option" where
  "pic_lower_intr state irq =
     (if irq < 0 then None
      else if irq \<le> 7 then
        Some (0, state\<lparr>master_irr := master_irr state AND NOT (push_bit (nat irq) 1)\<rparr>)
      else if irq > 7 \<and> irq < 16 then
        Some (0, state\<lparr>slave_irr := slave_irr state AND NOT (push_bit (nat (irq - 8)) 1)\<rparr>)
      else Some (0, state))"

definition pic_intr_pending :: "pic_internal \<Rightarrow> int" where
  "pic_intr_pending state =
     (if master_irr state AND NOT (master_imr state) \<noteq> 0 \<or> slave_irr state AND NOT (slave_imr state) \<noteq> 0
      then 1 else 0)"

text \<open>The loop of \<open>pic_get_intr_number\<close> from \<open>i\<close> on, with \<open>16 - i\<close> rounds left.\<close>

fun get_intr_scan :: "nat \<Rightarrow> pic_internal \<Rightarrow> nat \<Rightarrow> int" where
  "get_intr_scan 0 state i = -1"
| "get_intr_scan (Suc n) state i =
     (if i \<le> 7 then
        (if drop_bit i (master_irr state AND NOT (master_imr state)) = 0x01
         then int i + uint (master_icw2 state) else get_intr_scan n state (i + 1))
      else
        (if drop_bit (i - 8) (slave_irr state AND NOT (slave_imr state)) = 0x01
         then int (i - 8) + uint (slave_icw2 state) else get_intr_scan n state (i + 1)))"

definition pic_get_intr_number :: "pic_internal \<Rightarrow> int" where
  "pic_get_intr_number state = get_intr_scan 16 state 0"

definition pic_begin_irq :: "pic_internal \<Rightarrow> int \<Rightarrow> int \<times> pic_internal" where
  "pic_begin_irq state irq0 =
     (let pin = (if uint (master_icw2 state) \<le> irq0 \<and> irq0 \<le> uint (master_icw2 state) + 7
                 then Some (irq0 AND 0x7)
                 else if uint (slave_icw2 state) \<le> irq0 \<and> irq0 \<le> uint (slave_icw2 state) + 7
                 then Some ((irq0 AND 0x7) + 8)
                 else None)
      in case pin of
           None \<Rightarrow> (-1, state)
         | Some irq \<Rightarrow>
             if irq \<le> 7 then
               (if drop_bit (nat irq) (master_irr state AND NOT (master_imr state)) = 0x01
                then (0, state\<lparr>master_isr := master_isr state OR push_bit (nat irq) 1,
                               master_irr := master_irr state AND NOT (push_bit (nat irq) 1)\<rparr>)
                else (0, state))
             else (0, state\<lparr>slave_isr := slave_isr state OR push_bit (nat (irq - 8)) 1,
                            slave_irr := slave_irr state AND NOT (push_bit (nat (irq - 8)) 1)\<rparr>))"

definition pic_intr_ops :: "pic_internal intr_ctrl_ops" where
  "pic_intr_ops = \<lparr>intr_pending = pic_intr_pending, get_intr_number = pic_get_intr_number,
     raise_intr = pic_raise_intr, lower_intr = pic_lower_intr, begin_irq = pic_begin_irq\<rparr>"

section \<open>Ports\<close>

definition read_master_port1 :: "uint_t \<Rightarrow> pic_internal \<Rightarrow> int \<times> uchar_t option" where
  "read_master_port1 len state =
     (if len \<noteq> 1 then (-1, None)
      else if master_ocw3 state AND 0x03 = 0x02 then (1, Some (master_irr state))
      else if master_ocw3 state AND 0x03 = 0x03 then (1, Some (master_isr state))
      else (1, Some 0))"

definition read_master_port2 :: "uint_t \<Rightarrow> pic_internal \<Rightarrow> int \<times> uchar_t option" where
  "read_master_port2 len state = (if len \<noteq> 1 then (-1, None) else (1, Some (master_imr state)))"

definition read_slave_port1 :: "uint_t \<Rightarrow> pic_internal \<Rightarrow> int \<times> uchar_t option" where
  "read_slave_port1 len state =
     (if len \<noteq> 1 then (-1, None)
      else if slave_ocw3 state AND 0x03 = 0x02 then (1, Some (slave_irr state))
      else if slave_ocw3 state AND 0x03 = 0x03 then (1, Some (slave_isr state))
      else (1, Some 0))"

definition read_slave_port2 :: "uint_t \<Rightarrow> pic_internal \<Rightarrow> int \<times> uchar_t option" where
  "read_slave_port2 len state = (if len \<noteq> 1 then (-1, None) else (1, Some (slave_imr state)))"

text \<open>The non-specific end of interrupt clears the lowest bit that is set.\<close>

fun nonspecific_eoi :: "nat \<Rightarrow> nat \<Rightarrow> uchar_t \<Rightarrow> uchar_t" where
  "nonspecific_eoi 0 i isr = isr"
| "nonspecific_eoi (Suc n) i isr =
     (if isr AND push_bit i 1 \<noteq> 0 then isr AND NOT (push_bit i 1) else nonspecific_eoi n (i + 1) isr)"

definition write_master_port1 :: "uchar_t \<Rightarrow> uint_t \<Rightarrow> pic_internal \<Rightarrow> int \<times> pic_internal" where
  "write_master_port1 cw len state =
     (if len \<noteq> 1 then (-1, state)
      else if IS_ICW1 cw then (1, state\<lparr>master_icw1 := cw, master_state := ICW2\<rparr>)
      else if master_state state = READY then
        (if IS_OCW2 cw then
           (if ocw2_EOI cw \<and> \<not> ocw2_R cw \<and> ocw2_SL cw
            then (1, state\<lparr>master_isr := master_isr state AND NOT (push_bit (ocw2_level cw) 1), master_ocw2 := cw\<rparr>)
            else if ocw2_EOI cw \<and> \<not> ocw2_R cw \<and> \<not> ocw2_SL cw
            then (1, state\<lparr>master_isr := nonspecific_eoi 8 0 (master_isr state), master_ocw2 := cw\<rparr>)
            else (-1, state))
         else if IS_OCW3 cw then (1, state\<lparr>master_ocw3 := cw\<rparr>)
         else (-1, state))
      else (-1, state))"

definition write_master_port2 :: "uchar_t \<Rightarrow> uint_t \<Rightarrow> pic_internal \<Rightarrow> int \<times> pic_internal" where
  "write_master_port2 cw len state =
     (if len \<noteq> 1 then (-1, state)
      else case master_state state of
             ICW2 \<Rightarrow> (1, state\<lparr>master_icw2 := cw,
                       master_state := (if \<not> icw1_sngl (master_icw1 state) then ICW3
                                        else if icw1_ic4 (master_icw1 state) then ICW4 else READY)\<rparr>)
           | ICW3 \<Rightarrow> (1, state\<lparr>master_icw3 := cw,
                       master_state := (if icw1_ic4 (master_icw1 state) then ICW4 else READY)\<rparr>)
           | ICW4 \<Rightarrow> (1, state\<lparr>master_icw4 := cw, master_state := READY\<rparr>)
           | READY \<Rightarrow> (1, state\<lparr>master_imr := cw\<rparr>)
           | _ \<Rightarrow> (-1, state))"

definition write_slave_port1 :: "uchar_t \<Rightarrow> uint_t \<Rightarrow> pic_internal \<Rightarrow> int \<times> pic_internal" where
  "write_slave_port1 cw len state =
     (if len \<noteq> 1 then (-1, state)
      else if IS_ICW1 cw then (1, state\<lparr>slave_icw1 := cw, slave_state := ICW2\<rparr>)
      else if slave_state state = READY then
        (if IS_OCW2 cw then
           (if ocw2_EOI cw \<and> \<not> ocw2_R cw \<and> ocw2_SL cw
            then (1, state\<lparr>slave_isr := slave_isr state AND NOT (push_bit (ocw2_level cw) 1), slave_ocw2 := cw\<rparr>)
            else if ocw2_EOI cw \<and> \<not> ocw2_R cw \<and> \<not> ocw2_SL cw
            then (1, state\<lparr>slave_isr := nonspecific_eoi 8 0 (slave_isr state), slave_ocw2 := cw\<rparr>)
            else (-1, state))
         else if IS_OCW3 cw then (1, state\<lparr>slave_ocw3 := cw\<rparr>)
         else (-1, state))
      else (-1, state))"

text \<open>The slave's second port tests the ICW1 of the master.\<close>

definition write_slave_port2 :: "uchar_t \<Rightarrow> uint_t \<Rightarrow> pic_internal \<Rightarrow> int \<times> pic_internal" where
  "write_slave_port2 cw len state =
     (if len \<noteq> 1 then (-1, state)
      else case slave_state state of
             ICW2 \<Rightarrow> (1, state\<lparr>slave_icw2 := cw,
                       slave_state := (if \<not> icw1_sngl (master_icw1 state) then ICW3
                                       else if icw1_ic4 (master_icw1 state) then ICW4 else READY)\<rparr>)
           | ICW3 \<Rightarrow> (1, state\<lparr>slave_icw3 := cw,
                       slave_state := (if icw1_ic4 (master_icw1 state) then ICW4 else READY)\<rparr>)
           | ICW4 \<Rightarrow> (1, state\<lparr>slave_icw4 := cw, slave_state := READY\<rparr>)
           | READY \<Rightarrow> (1, state\<lparr>slave_imr := cw\<rparr>)
           | _ \<Rightarrow> (-1, state))"

section \<open>Initialisation\<close>

text \<open>The virtual machine with its interrupt state; the device's private data is the controller state.\<close>

record pic_vm = vm_state +
  pv_intr :: "pic_internal v3_intr_state"

definition pic_reset :: pic_internal where
  "pic_reset = \<lparr>master_irr = 0, slave_irr = 0, master_isr = 0, slave_isr = 0,
     master_icw1 = 0, master_icw2 = 0, master_icw3 = 0, master_icw4 = 0,
     slave_icw1 = 0, slave_icw2 = 0, slave_icw3 = 0, slave_icw4 = 0,
     master_imr = 0, slave_imr = 0, master_ocw2 = 0, master_ocw3 = 0x02,
     slave_ocw2 = 0, slave_ocw3 = 0x02, master_state = ICW1, slave_state = ICW1\<rparr>"

definition pic_ports :: "ushort_t list" where
  "pic_ports = [MASTER_PORT1, MASTER_PORT2, SLAVE_PORT1, SLAVE_PORT2]"

text \<open>\<open>fns\<close> gives for each of the four ports, in order, the addresses of its two handlers and of the
  two hook structures that are allocated for it.\<close>

definition pic_init ::
  "addr_t \<Rightarrow> addr_t \<Rightarrow> (addr_t \<times> addr_t \<times> addr_t \<times> addr_t) list \<Rightarrow> addr_t \<Rightarrow> pic_vm \<Rightarrow> (int \<times> pic_vm) option" where
  "pic_init dr dw fns dev vm =
     (let vm1 = vm\<lparr>pv_intr := v3_set_intr_controller (pv_intr vm) pic_intr_ops pic_reset\<rparr>
      in map_option (Pair 0) (dev_hook_ports dr dw dev (zip pic_ports fns) vm1))"

definition pic_deinit :: "addr_t \<Rightarrow> pic_vm \<Rightarrow> (int \<times> pic_vm) option" where
  "pic_deinit dev vm = map_option (Pair 0) (dev_unhook_ports dev pic_ports vm)"


section \<open>Which interrupt comes next\<close>

definition pend_master :: "pic_internal \<Rightarrow> uchar_t" where
  "pend_master s = master_irr s AND NOT (master_imr s)"

definition pend_slave :: "pic_internal \<Rightarrow> uchar_t" where
  "pend_slave s = slave_irr s AND NOT (slave_imr s)"

definition is_top :: "uchar_t \<Rightarrow> nat \<Rightarrow> bool" where
  "is_top w i \<longleftrightarrow> bit w i \<and> (\<forall>j > i. \<not> bit w j)"

lemmas pend_defs = pend_master_def pend_slave_def

lemma drop_bit_is_top: "drop_bit i w = 1 \<longleftrightarrow> is_top w i" for w :: uchar_t
proof
  assume d: "drop_bit i w = 1"
  have "bit (drop_bit i w) j = bit (1 :: uchar_t) j" for j by (simp only: d)
  then have "bit w (i + j) \<longleftrightarrow> j = 0" for j by (simp add: bit_drop_bit_eq bit_1_iff)
  then show "is_top w i" unfolding is_top_def
    by (metis add_0_right less_imp_add_positive less_numeral_extra(3))
next
  assume t: "is_top w i"
  then have "i < 8" using bit_imp_le_length[of w i] by (simp add: is_top_def)
  with t show "drop_bit i w = 1"
    by (intro bit_word_eqI) (auto simp: bit_simps is_top_def, metis less_add_same_cancel1 gr0I)
qed

lemma is_top_less: "is_top w i \<Longrightarrow> i < 8"
  using bit_imp_le_length[of w i] by (simp add: is_top_def)

lemma is_top_unique: "is_top w i \<Longrightarrow> is_top w j \<Longrightarrow> i = j"
  by (auto simp: is_top_def intro: linorder_cases[of i j])

lemma is_top_exists:
  assumes "w \<noteq> 0"
  obtains i where "is_top w i" "i < 8"
proof -
  let ?S = "{i. bit w i}"
  have fin: "finite ?S" by (rule finite_subset[of _ "{..<8}"]) (auto dest: bit_imp_le_length)
  from assms obtain k where "bit w k" by (metis bit_0_eq bit_eqI bot_apply bot_bool_def)
  then have "?S \<noteq> {}" by auto
  then have "bit w (Max ?S)" using Max_in[OF fin] by simp
  moreover have "\<not> bit w j" if "j > Max ?S" for j
  proof
    assume "bit w j"
    then have "j \<le> Max ?S" by (intro Max_ge[OF fin]) simp
    with that show False by simp
  qed
  ultimately have "is_top w (Max ?S)" unfolding is_top_def by blast
  with that is_top_less show ?thesis by blast
qed

lemma is_top_zero: "\<not> is_top 0 i"
  by (simp add: is_top_def)

text \<open>The line that the scan stops at, and its vector.\<close>

definition scan_hit :: "pic_internal \<Rightarrow> nat \<Rightarrow> bool" where
  "scan_hit s i \<longleftrightarrow> (if i \<le> 7 then is_top (pend_master s) i else is_top (pend_slave s) (i - 8))"

lemma get_intr_scan_step:
  "get_intr_scan (Suc n) s i =
     (if scan_hit s i then (if i \<le> 7 then int i + uint (master_icw2 s) else int (i - 8) + uint (slave_icw2 s))
      else get_intr_scan n s (i + 1))"
  unfolding get_intr_scan.simps drop_bit_is_top scan_hit_def pend_defs by simp

lemma get_intr_scan_find:
  "get_intr_scan n s i = (case find (scan_hit s) [i..<i + n] of
      None \<Rightarrow> -1
    | Some j \<Rightarrow> if j \<le> 7 then int j + uint (master_icw2 s) else int (j - 8) + uint (slave_icw2 s))"
proof (induction n arbitrary: i)
  case (Suc n)
  have up: "[i..<i + Suc n] = i # [Suc i..<Suc i + n]" by (simp add: upt_conv_Cons)
  show ?case unfolding up get_intr_scan_step using Suc[of "Suc i"] by simp
qed simp

lemma find_first_upt:
  assumes "k < n" "P k" "\<And>j. j < k \<Longrightarrow> \<not> P j"
  shows "find P [0..<n] = Some k"
  using assms by (auto simp: find_Some_iff intro!: exI[of _ k])

lemma pic_number_master:
  assumes "is_top (pend_master s) i"
  shows "pic_get_intr_number s = int i + uint (master_icw2 s)"
proof -
  have i: "i < 8" using is_top_less[OF assms] .
  have "find (scan_hit s) [0..<16] = Some i"
  proof (rule find_first_upt)
    fix j assume "j < i"
    then show "\<not> scan_hit s j" using i is_top_unique[OF assms, of j] by (auto simp: scan_hit_def)
  qed (use i assms in \<open>auto simp: scan_hit_def\<close>)
  then show ?thesis using i get_intr_scan_find[of 16 s 0] by (simp add: pic_get_intr_number_def)
qed

lemma pic_number_slave:
  assumes "pend_master s = 0" "is_top (pend_slave s) i"
  shows "pic_get_intr_number s = int i + uint (slave_icw2 s)"
proof -
  have i: "i < 8" using is_top_less[OF assms(2)] .
  have "find (scan_hit s) [0..<16] = Some (i + 8)"
  proof (rule find_first_upt)
    fix j assume "j < i + 8"
    then show "\<not> scan_hit s j" using assms is_top_unique[OF assms(2), of "j - 8"]
      by (auto simp: scan_hit_def is_top_zero)
  qed (use i assms in \<open>auto simp: scan_hit_def\<close>)
  then show ?thesis using i get_intr_scan_find[of 16 s 0] by (simp add: pic_get_intr_number_def)
qed

lemma pic_number_none:
  assumes "pend_master s = 0" "pend_slave s = 0"
  shows "pic_get_intr_number s = -1"
proof -
  have "find (scan_hit s) [0..<16] = None"
    using assms by (simp add: find_None_iff scan_hit_def is_top_zero)
  then show ?thesis using get_intr_scan_find[of 16 s 0] by (simp add: pic_get_intr_number_def)
qed

lemma pic_pending_iff: "pic_intr_pending s = 1 \<longleftrightarrow> pend_master s \<noteq> 0 \<or> pend_slave s \<noteq> 0"
  by (simp add: pic_intr_pending_def pend_defs)


section \<open>Taking an interrupt\<close>

text \<open>The guest has given the two chips distinct vector bases, each a multiple of 8.\<close>

definition pic_wf :: "pic_internal \<Rightarrow> bool" where
  "pic_wf s \<longleftrightarrow> uint (master_icw2 s) mod 8 = 0 \<and> uint (slave_icw2 s) mod 8 = 0 \<and> master_icw2 s \<noteq> slave_icw2 s"

text \<open>The number of raised and unmasked lines.\<close>

definition lines_of :: "uchar_t \<Rightarrow> nat set" where
  "lines_of w = {i. bit w i}"

definition pic_waiting :: "pic_internal \<Rightarrow> nat" where
  "pic_waiting s = card (lines_of (pend_master s)) + card (lines_of (pend_slave s))"

definition serve_master :: "nat \<Rightarrow> pic_internal \<Rightarrow> pic_internal" where
  "serve_master i s = s\<lparr>master_isr := master_isr s OR push_bit i 1, master_irr := master_irr s AND NOT (push_bit i 1)\<rparr>"

definition serve_slave :: "nat \<Rightarrow> pic_internal \<Rightarrow> pic_internal" where
  "serve_slave i s = s\<lparr>slave_isr := slave_isr s OR push_bit i 1, slave_irr := slave_irr s AND NOT (push_bit i 1)\<rparr>"

lemma and_7_mod_8: "x AND 7 = x mod 8" for x :: int
  using take_bit_eq_mask[of 3 x] by (simp add: take_bit_eq_mod mask_eq_exp_minus_1)

lemma blocks_of_8_apart:
  "a mod 8 = 0 \<Longrightarrow> b mod 8 = 0 \<Longrightarrow> a \<noteq> b \<Longrightarrow> 0 \<le> i \<Longrightarrow> i < 8 \<Longrightarrow> \<not> (a \<le> i + b \<and> i + b \<le> a + 7)" for a b i :: int
  by presburger

lemma lines_of_sub: "lines_of w \<subseteq> {..<8}"
  by (auto simp: lines_of_def dest: bit_imp_le_length)

lemma finite_lines: "finite (lines_of w)"
  using lines_of_sub finite_subset by blast

lemma pend_serve:
  "lines_of (pend_master (serve_master i s)) = lines_of (pend_master s) - {i}"
  "lines_of (pend_slave (serve_slave i s)) = lines_of (pend_slave s) - {i}"
  "pend_slave (serve_master i s) = pend_slave s" "pend_master (serve_slave i s) = pend_master s"
  by (auto simp: lines_of_def pend_defs serve_master_def serve_slave_def bit_simps)

lemma pic_wf_serve: "pic_wf (serve_master i s) = pic_wf s" "pic_wf (serve_slave i s) = pic_wf s"
  by (simp_all add: pic_wf_def serve_master_def serve_slave_def)

lemma begin_master:
  assumes "pic_wf s" "is_top (pend_master s) i"
  shows "pic_begin_irq s (int i + uint (master_icw2 s)) = (0, serve_master i s)"
proof -
  have i: "i < 8" using is_top_less[OF assms(2)] .
  have "(int i + uint (master_icw2 s)) mod 8 = int i"
    using i assms(1) by (simp add: pic_wf_def mod_add_eq[symmetric])
  moreover have "drop_bit i (master_irr s AND NOT (master_imr s)) = 1"
    using assms(2) by (simp only: drop_bit_is_top pend_master_def)
  ultimately show ?thesis
    unfolding pic_begin_irq_def and_7_mod_8 Let_def serve_master_def using i by simp
qed

lemma begin_slave:
  assumes "pic_wf s" "i < 8"
  shows "pic_begin_irq s (int i + uint (slave_icw2 s)) = (0, serve_slave i s)"
proof -
  have m: "(int i + uint (slave_icw2 s)) mod 8 = int i"
    using assms by (simp add: pic_wf_def mod_add_eq[symmetric])
  have "uint (master_icw2 s) \<noteq> uint (slave_icw2 s)" using assms(1) by (auto simp: pic_wf_def word_uint_eq_iff)
  then have "\<not> (uint (master_icw2 s) \<le> int i + uint (slave_icw2 s) \<and> int i + uint (slave_icw2 s) \<le> uint (master_icw2 s) + 7)"
    using blocks_of_8_apart[of "uint (master_icw2 s)" "uint (slave_icw2 s)" "int i"] assms by (simp add: pic_wf_def)
  then show ?thesis
    unfolding pic_begin_irq_def and_7_mod_8 Let_def serve_slave_def using m assms(2) by auto
qed

lemma pic_next_cases:
  assumes "pic_wf s" "pic_intr_pending s = 1"
  obtains (master) i where "is_top (pend_master s) i" "pic_get_intr_number s = int i + uint (master_icw2 s)"
      "pic_begin_irq s (pic_get_intr_number s) = (0, serve_master i s)"
    | (slave) i where "pend_master s = 0" "is_top (pend_slave s) i" "pic_get_intr_number s = int i + uint (slave_icw2 s)"
      "pic_begin_irq s (pic_get_intr_number s) = (0, serve_slave i s)"
proof (cases "pend_master s = 0")
  case True
  then have "pend_slave s \<noteq> 0" using assms(2) by (simp add: pic_pending_iff)
  then obtain i where i: "is_top (pend_slave s) i" "i < 8" by (rule is_top_exists)
  show ?thesis
    by (rule slave[OF True i(1) pic_number_slave[OF True i(1)]])
      (simp add: pic_number_slave[OF True i(1)] begin_slave[OF assms(1) i(2)])
next
  case False
  then obtain i where i: "is_top (pend_master s) i" by (rule is_top_exists)
  show ?thesis
    by (rule master[OF i pic_number_master[OF i]])
      (simp add: pic_number_master[OF i] begin_master[OF assms(1) i])
qed

interpretation pic: intr_controller pic_intr_ops pic_wf pic_waiting
proof
  show "intr_pending pic_intr_ops c = 0 \<or> intr_pending pic_intr_ops c = 1" for c
    by (simp add: pic_intr_ops_def pic_intr_pending_def)
next
  fix c assume a: "pic_wf c" "intr_pending pic_intr_ops c = 1"
  then have p: "pic_intr_pending c = 1" by (simp add: pic_intr_ops_def)
  have u: "0 \<le> uint x \<and> uint x < 256" for x :: uchar_t using uint_lt2p[of x] by simp
  show "0 \<le> get_intr_number pic_intr_ops c \<and> get_intr_number pic_intr_ops c < 2 ^ 31"
    using a(1) p
  proof (cases rule: pic_next_cases)
    case (master i)
    then show ?thesis using is_top_less[OF master(1)] u[of "master_icw2 c"] by (auto simp: pic_intr_ops_def)
  next
    case (slave i)
    then show ?thesis using is_top_less[OF slave(2)] u[of "slave_icw2 c"] by (auto simp: pic_intr_ops_def)
  qed
  show "\<exists>c'. begin_irq pic_intr_ops c (get_intr_number pic_intr_ops c) = (0, c') \<and> pic_wf c' \<and> pic_waiting c' < pic_waiting c"
    using a(1) p
  proof (cases rule: pic_next_cases)
    case (master i)
    then have "i \<in> lines_of (pend_master c)" by (simp add: is_top_def lines_of_def)
    then have "card (lines_of (pend_master c) - {i}) < card (lines_of (pend_master c))"
      using finite_lines by (metis card_Diff1_less)
    then show ?thesis using master a(1) by (simp add: pic_intr_ops_def pic_wf_serve pic_waiting_def pend_serve)
  next
    case (slave i)
    then have "i \<in> lines_of (pend_slave c)" by (simp add: is_top_def lines_of_def)
    then have "card (lines_of (pend_slave c) - {i}) < card (lines_of (pend_slave c))"
      using finite_lines by (metis card_Diff1_less)
    then show ?thesis using slave a(1) by (simp add: pic_intr_ops_def pic_wf_serve pic_waiting_def pend_serve)
  qed
qed


section \<open>Properties\<close>

definition demo_pic :: pic_internal where
  "demo_pic = pic_reset\<lparr>master_icw2 := 0x20, slave_icw2 := 0x28, master_irr := 0x0a, slave_irr := 0x10,
     master_imr := 0xf0, master_state := READY, slave_state := READY\<rparr>"

lemma demo_pic_wf: "pic_wf demo_pic"
  by (simp add: pic_wf_def demo_pic_def pic_reset_def)

text \<open>C14: With vector bases that are distinct multiples of 8, a pending interrupt has a vector, and
  beginning that vector succeeds and moves exactly its line from the request register to the
  in-service register of its chip. The line is the highest-numbered raised and unmasked line of
  the master, and only when the master has none, the highest-numbered one of the slave.\<close>

theorem pic_next_interrupt:
  assumes "pic_wf s" "pic_intr_pending s = 1"
  shows "(\<exists>i. bit (pend_master s) i \<and> (\<forall>j > i. \<not> bit (pend_master s) j)
        \<and> pic_get_intr_number s = int i + uint (master_icw2 s)
        \<and> pic_begin_irq s (pic_get_intr_number s) = (0, serve_master i s))
    \<or> (pend_master s = 0 \<and> (\<exists>i. bit (pend_slave s) i \<and> (\<forall>j > i. \<not> bit (pend_slave s) j)
        \<and> pic_get_intr_number s = int i + uint (slave_icw2 s)
        \<and> pic_begin_irq s (pic_get_intr_number s) = (0, serve_slave i s)))"
  using assms by (cases rule: pic_next_cases) (auto simp: is_top_def)

lemma pic_next_interrupt_witness: "\<exists>s'. pic_begin_irq demo_pic (pic_get_intr_number demo_pic) = (0, s')"
  using pic_next_interrupt[OF demo_pic_wf] by (auto simp: pic_intr_pending_def demo_pic_def pic_reset_def)

text \<open>C19: The controller reports a pending interrupt exactly when it can name one.\<close>

theorem pic_pending_iff_number:
  "pic_intr_pending s = 1 \<longleftrightarrow> pic_get_intr_number s \<noteq> -1"
proof (cases "pend_master s = 0 \<and> pend_slave s = 0")
  case True
  then show ?thesis by (simp add: pic_number_none pic_pending_iff)
next
  case False
  have u: "0 \<le> uint x" for x :: uchar_t by simp
  from False have "pic_get_intr_number s \<ge> 0"
  proof (cases "pend_master s = 0")
    case True
    with False obtain i where "is_top (pend_slave s) i" using is_top_exists[of "pend_slave s"] by auto
    from pic_number_slave[OF True this] show ?thesis using u[of "slave_icw2 s"] by simp
  next
    case f: False
    then obtain i where "is_top (pend_master s) i" using is_top_exists[of "pend_master s"] by auto
    from pic_number_master[OF this] show ?thesis using u[of "master_icw2 s"] by simp
  qed
  with False show ?thesis by (auto simp: pic_pending_iff)
qed


definition demo_pic_intr :: "pic_internal v3_intr_state" where
  "demo_pic_intr = \<lparr>excp_pending = 1, excp_num = 13, excp_error_code_valid = False, excp_error_code = 0,
     controller = Some pic_intr_ops, controller_state = demo_pic, irq_hooks = replicate 256 None\<rparr>"


text \<open>C34: Raising and then lowering a line that was low leaves the controller as it was, for every line
  but 2; line 2 is raised as lines 2 and 9 and lowered as line 2 only, so line 9 stays raised.\<close>

theorem pic_raise_lower:
  assumes "0 \<le> irq" "irq < 16"
    and "if irq \<le> 7 then \<not> bit (master_irr s) (nat irq) else \<not> bit (slave_irr s) (nat (irq - 8))"
  shows "Option.bind (pic_raise_intr s irq) (\<lambda>(_, s1). pic_lower_intr s1 irq)
       = Some (0, if irq = 2 then s\<lparr>slave_irr := slave_irr s OR 2\<rparr> else s)"
proof -
  have cl: "(w OR push_bit n 1) AND NOT (push_bit n 1) = w" if "\<not> bit w n" for w :: uchar_t and n
    using that by (intro bit_word_eqI) (auto simp: bit_simps)
  have two: "(4 :: uchar_t) = push_bit 2 1" "(2 :: uchar_t) = push_bit 1 1" by simp_all
  show ?thesis
  proof (cases "irq = 2")
    case True
    then have "(master_irr s OR 4) AND NOT 4 = master_irr s" using cl[of "master_irr s" 2] assms(3) by simp
    then show ?thesis using True by (simp add: pic_raise_intr_def pic_lower_intr_def Let_def)
  next
    case False
    then show ?thesis using assms cl by (auto simp: pic_raise_intr_def pic_lower_intr_def Let_def)
  qed
qed

lemma pic_raise_lower_witness:
  "Option.bind (pic_raise_intr pic_reset 2) (\<lambda>(_, s1). pic_lower_intr s1 2) = Some (0, pic_reset\<lparr>slave_irr := 2\<rparr>)"
  using pic_raise_lower[of 2 pic_reset] by (simp add: pic_reset_def)


lemma nonspecific_eoi_find:
  "nonspecific_eoi n i isr = (case find (bit isr) [i..<i + n] of None \<Rightarrow> isr | Some j \<Rightarrow> isr AND NOT (push_bit j 1))"
proof (induction n arbitrary: i)
  case (Suc n)
  have up: "[i..<i + Suc n] = i # [Suc i..<Suc i + n]" by (simp add: upt_conv_Cons)
  have "isr AND push_bit i 1 \<noteq> 0 \<longleftrightarrow> bit isr i"
    by (metis and_exp_eq_0_iff_not_bit push_bit_of_1)
  then show ?case unfolding up nonspecific_eoi.simps using Suc[of "Suc i"] by simp
qed simp

lemma single_bit_eoi:
  assumes "i < 8"
  shows "nonspecific_eoi 8 0 (push_bit i 1) = 0"
proof -
  have "find (bit (push_bit i 1 :: uchar_t)) [0..<8] = Some i"
    by (rule find_first_upt) (use assms in \<open>auto simp: bit_simps\<close>)
  then show ?thesis using nonspecific_eoi_find[of 8 0 "push_bit i 1"] by simp
qed

text \<open>C20: A complete interrupt cycle on an idle, programmed master: taking the next vector and then
  writing a non-specific end of interrupt to its first port leaves nothing in service, the line no
  longer requested, and everything else but the recorded command word unchanged.\<close>

theorem master_interrupt_cycle:
  assumes "pic_wf s" "pend_master s \<noteq> 0" "master_isr s = 0" "master_state s = READY"
  shows "\<exists>i s1. is_top (pend_master s) i \<and> pic_begin_irq s (pic_get_intr_number s) = (0, s1)
    \<and> write_master_port1 0x20 1 s1
       = (1, s\<lparr>master_irr := master_irr s AND NOT (push_bit i 1), master_ocw2 := 0x20\<rparr>)"
proof -
  obtain i where i: "is_top (pend_master s) i" "i < 8" using assms(2) by (rule is_top_exists)
  have "pic_begin_irq s (pic_get_intr_number s) = (0, serve_master i s)"
    using begin_master[OF assms(1) i(1)] pic_number_master[OF i(1)] by simp
  moreover have "write_master_port1 0x20 1 (serve_master i s)
      = (1, s\<lparr>master_irr := master_irr s AND NOT (push_bit i 1), master_ocw2 := 0x20\<rparr>)"
    using assms(3,4) single_bit_eoi[OF i(2)]
    by (simp add: write_master_port1_def serve_master_def IS_ICW1_def IS_OCW2_def ocw2_EOI_def ocw2_R_def
        ocw2_SL_def bf_flag_def)
  ultimately show ?thesis using i(1) by blast
qed

lemma master_interrupt_cycle_witness:
  "\<exists>s1 s2. pic_begin_irq demo_pic (pic_get_intr_number demo_pic) = (0, s1)
     \<and> write_master_port1 0x20 1 s1 = (1, s2) \<and> master_isr s2 = 0"
  using master_interrupt_cycle[OF demo_pic_wf]
  by (auto simp: demo_pic_def pic_reset_def pend_master_def)

text \<open>C30: Programming the master with the usual four words (cascade mode, ICW4 announced) from any state
  ends in READY with the words stored and every request, service and mask bit kept, and the next
  write to the second port sets the mask.\<close>

theorem master_programming:
  assumes "IS_ICW1 cw1" "\<not> icw1_sngl cw1" "icw1_ic4 cw1"
  shows "\<exists>s1 s2 s3 s4. write_master_port1 cw1 1 s = (1, s1) \<and> write_master_port2 cw2 1 s1 = (1, s2)
    \<and> write_master_port2 cw3 1 s2 = (1, s3) \<and> write_master_port2 cw4 1 s3 = (1, s4)
    \<and> s4 = s\<lparr>master_icw1 := cw1, master_icw2 := cw2, master_icw3 := cw3, master_icw4 := cw4, master_state := READY\<rparr>
    \<and> write_master_port2 m 1 s4 = (1, s4\<lparr>master_imr := m\<rparr>)"
  using assms by (simp add: write_master_port1_def write_master_port2_def)

lemma master_programming_witness:
  "\<exists>s1. write_master_port1 0x11 1 pic_reset = (1, s1) \<and> master_state s1 = ICW2"
  using master_programming[of "0x11" pic_reset]
  by (auto simp: IS_ICW1_def icw1_sngl_def icw1_ic4_def bf_flag_def write_master_port1_def)



end
