(* ===== verification/V3_Mem.thy ===== *)
theory V3_Mem
  imports V3_Prelude
begin

text \<open>
  The shadow map of \<^verbatim>\<open>src/palacios/vmm_mem.c\<close>: the guest-physical address space as a list of
  regions, in the order of the \<open>next\<close> links. The \<open>prev\<close> links are written by the code and read
  nowhere, so they are not kept. A region carries the address \<open>V3_Malloc\<close> gave it
  (\<open>sr_self\<close>); hook structures live in a store indexed by their address, because a hooked
  region's \<open>host_addr\<close> is the pointer to its hook. A null region pointer is \<open>None\<close>; a
  dereference of one is the result \<open>None\<close> of the operation.
\<close>

section \<open>Data\<close>

datatype guest_region_type =
    GUEST_REGION_NOTHING
  | GUEST_REGION_PHYSICAL_MEMORY
  | GUEST_REGION_MEMORY_MAPPED_DEVICE

datatype host_region_type =
    HOST_REGION_INVALID
  | HOST_REGION_HOOK
  | HOST_REGION_PHYSICAL_MEMORY
  | HOST_REGION_MEMORY_MAPPED_DEVICE
  | HOST_REGION_UNALLOCATED
  | HOST_REGION_REMOTE
  | HOST_REGION_SWAPPED

record shadow_region =
  sr_self :: addr_t
  guest_type :: guest_region_type
  guest_start :: addr_t
  guest_end :: addr_t
  host_type :: host_region_type
  host_addr :: addr_t

record shadow_map =
  num_regions :: uint_t
  sm_regions :: "shadow_region list"

record vmm_mem_hook =
  mh_read :: addr_t
  mh_write :: addr_t
  mh_priv_data :: addr_t
  mh_region :: addr_t

text \<open>The part of \<open>struct guest_info\<close> this component works on.\<close>

record mem_state =
  mem_map :: shadow_map
  mem_hooks :: "addr_t \<Rightarrow> vmm_mem_hook option"

section \<open>Operations\<close>

definition init_shadow_region ::
  "addr_t \<Rightarrow> addr_t \<Rightarrow> addr_t \<Rightarrow> guest_region_type \<Rightarrow> host_region_type \<Rightarrow> shadow_region" where
  "init_shadow_region entry guest_addr_start guest_addr_end guest_region_type host_region_type =
     \<lparr>sr_self = entry, guest_type = guest_region_type, guest_start = guest_addr_start,
      guest_end = guest_addr_end, host_type = host_region_type, host_addr = 0\<rparr>"

definition init_shadow_map :: "mem_state \<Rightarrow> mem_state" where
  "init_shadow_map info = info\<lparr>mem_map := \<lparr>num_regions = 0, sm_regions = []\<rparr>\<rparr>"

text \<open>The nodes freed, in order; the map structure itself is freed after them.\<close>

definition free_shadow_map :: "shadow_map \<Rightarrow> addr_t \<Rightarrow> addr_t list" where
  "free_shadow_map m map_addr = map sr_self (sm_regions m) @ [map_addr]"

text \<open>The loop of \<open>add_shadow_region\<close> at a cursor, with the rest of the list behind it.\<close>

fun add_region_loop :: "shadow_region \<Rightarrow> shadow_region list \<Rightarrow> shadow_region list option" where
  "add_region_loop region [] = None"
| "add_region_loop region [cursor] =
     (if guest_end cursor > guest_start region \<and> guest_start cursor < guest_start region then None
      else Some [cursor, region])"
| "add_region_loop region (cursor # nxt # rest) =
     (if guest_end cursor > guest_start region \<and> guest_start cursor < guest_start region then None
      else if guest_start nxt \<ge> guest_end region then Some (cursor # region # nxt # rest)
      else if guest_end nxt \<le> guest_start region
           then map_option (\<lambda>l. cursor # l) (add_region_loop region (nxt # rest))
      else None)"

definition add_shadow_region :: "shadow_map \<Rightarrow> shadow_region \<Rightarrow> int \<times> shadow_map" where
  "add_shadow_region m region =
     (let inserted = (case sm_regions m of
                        [] \<Rightarrow> Some [region]
                      | cursor # _ \<Rightarrow>
                          if guest_start cursor \<ge> guest_end region then Some (region # sm_regions m)
                          else add_region_loop region (sm_regions m))
      in case inserted of
           None \<Rightarrow> (-1, m)
         | Some l \<Rightarrow> (0, m\<lparr>num_regions := num_regions m + 1, sm_regions := l\<rparr>))"

definition delete_shadow_region :: "shadow_map \<Rightarrow> addr_t \<Rightarrow> addr_t \<Rightarrow> int \<times> shadow_map" where
  "delete_shadow_region m gstart gend = (-1, m)"

text \<open>\<open>entry\<close> and \<open>hook\<close> are what \<open>V3_Malloc\<close> returned; the code does not test them.\<close>

definition add_shadow_region_passthrough ::
  "mem_state \<Rightarrow> addr_t \<Rightarrow> addr_t \<Rightarrow> addr_t \<Rightarrow> addr_t \<Rightarrow> int \<times> mem_state" where
  "add_shadow_region_passthrough guest_info guest_addr_start guest_addr_end haddr entry =
     (let region = (init_shadow_region entry guest_addr_start guest_addr_end
                      GUEST_REGION_PHYSICAL_MEMORY HOST_REGION_PHYSICAL_MEMORY)\<lparr>host_addr := haddr\<rparr>;
          (ret, m) = add_shadow_region (mem_map guest_info) region
      in (ret, guest_info\<lparr>mem_map := m\<rparr>))"

definition hook_guest_mem ::
  "mem_state \<Rightarrow> addr_t \<Rightarrow> addr_t \<Rightarrow> addr_t \<Rightarrow> addr_t \<Rightarrow> addr_t \<Rightarrow> addr_t \<Rightarrow> addr_t \<Rightarrow> int \<times> mem_state" where
  "hook_guest_mem info guest_addr_start guest_addr_end rd wr priv_data entry hook =
     (let h = \<lparr>mh_read = rd, mh_write = wr, mh_priv_data = priv_data, mh_region = entry\<rparr>;
          region = (init_shadow_region entry guest_addr_start guest_addr_end
                      GUEST_REGION_PHYSICAL_MEMORY HOST_REGION_HOOK)\<lparr>host_addr := hook\<rparr>;
          (ret, m) = add_shadow_region (mem_map info) region
      in (ret, info\<lparr>mem_map := m, mem_hooks := (mem_hooks info)(hook \<mapsto> h)\<rparr>))"

fun region_at_index :: "shadow_region list \<Rightarrow> uint_t \<Rightarrow> uint_t \<Rightarrow> shadow_region option" where
  "region_at_index [] i index = None"
| "region_at_index (reg # rest) i index =
     (if i = index then Some reg else region_at_index rest (i + 1) index)"

definition get_shadow_region_by_index :: "shadow_map \<Rightarrow> uint_t \<Rightarrow> shadow_region option" where
  "get_shadow_region_by_index m index = region_at_index (sm_regions m) 0 index"

fun region_at_addr :: "shadow_region list \<Rightarrow> addr_t \<Rightarrow> shadow_region option" where
  "region_at_addr [] addr = None"
| "region_at_addr (reg # rest) addr =
     (if guest_start reg \<le> addr \<and> guest_end reg > addr then Some reg
      else if guest_start reg > addr then None
      else region_at_addr rest addr)"

definition get_shadow_region_by_addr :: "shadow_map \<Rightarrow> addr_t \<Rightarrow> shadow_region option" where
  "get_shadow_region_by_addr m addr = region_at_addr (sm_regions m) addr"

definition get_shadow_addr_type :: "'z mem_state_scheme \<Rightarrow> addr_t \<Rightarrow> host_region_type" where
  "get_shadow_addr_type info guest_addr =
     (case get_shadow_region_by_addr (mem_map info) guest_addr of
        None \<Rightarrow> HOST_REGION_INVALID
      | Some reg \<Rightarrow> host_type reg)"

definition get_shadow_addr :: "'z mem_state_scheme \<Rightarrow> addr_t \<Rightarrow> addr_t" where
  "get_shadow_addr info guest_addr =
     (case get_shadow_region_by_addr (mem_map info) guest_addr of
        None \<Rightarrow> 0
      | Some reg \<Rightarrow> (guest_addr - guest_start reg) + host_addr reg)"

text \<open>The address is \<open>None\<close> where the code leaves \<open>*host_addr\<close> alone.\<close>

definition lookup_shadow_map_addr :: "shadow_map \<Rightarrow> addr_t \<Rightarrow> host_region_type \<times> addr_t option" where
  "lookup_shadow_map_addr m guest_addr =
     (case get_shadow_region_by_addr m guest_addr of
        None \<Rightarrow> (HOST_REGION_INVALID, None)
      | Some reg \<Rightarrow>
          (case host_type reg of
             HOST_REGION_PHYSICAL_MEMORY \<Rightarrow>
               (host_type reg, Some ((guest_addr - guest_start reg) + host_addr reg))
           | _ \<Rightarrow> (host_type reg, Some 0)))"

definition get_mem_hook :: "'z mem_state_scheme \<Rightarrow> addr_t \<Rightarrow> addr_t option" where
  "get_mem_hook info guest_addr =
     map_option host_addr (get_shadow_region_by_addr (mem_map info) guest_addr)"

text \<open>
  Page faults on hooked memory. The instruction emulator (\<open>v3_emulate_memory_write\<close> and
  \<open>v3_emulate_memory_read\<close>, which run the handler of the hook) is an argument: it gets the
  fault addresses and the hook's handler and private data, and returns its status with the new
  state. A region pointer or hook pointer that is not valid gives \<open>None\<close>.
\<close>

type_synonym 's emulator = "'s \<Rightarrow> addr_t \<Rightarrow> addr_t \<Rightarrow> addr_t \<Rightarrow> addr_t \<Rightarrow> int \<times> 's"

definition mem_hook_dispatch ::
  "'s emulator \<Rightarrow> 's emulator \<Rightarrow> 's \<Rightarrow> addr_t \<Rightarrow> addr_t \<Rightarrow> bool \<Rightarrow> vmm_mem_hook \<Rightarrow> int \<times> 's" where
  "mem_hook_dispatch emulate_write emulate_read info fault_gva fault_gpa access_write hook =
     (if access_write
      then case emulate_write info fault_gva (mh_write hook) fault_gpa (mh_priv_data hook) of
             (ret, info') \<Rightarrow> (if ret = -1 then -1 else 0, info')
      else case emulate_read info fault_gva (mh_read hook) fault_gpa (mh_priv_data hook) of
             (ret, info') \<Rightarrow> (if ret = -1 then -1 else 0, info'))"

definition handle_special_page_fault ::
  "'s emulator \<Rightarrow> 's emulator \<Rightarrow> 'z mem_state_scheme \<Rightarrow> 's \<Rightarrow> addr_t \<Rightarrow> addr_t \<Rightarrow> bool \<Rightarrow> (int \<times> 's) option" where
  "handle_special_page_fault emulate_write emulate_read mem info fault_gva fault_gpa access_write =
     (case get_shadow_region_by_addr (mem_map mem) fault_gpa of
        None \<Rightarrow> None
      | Some reg \<Rightarrow>
          (case host_type reg of
             HOST_REGION_HOOK \<Rightarrow>
               map_option (mem_hook_dispatch emulate_write emulate_read info fault_gva fault_gpa access_write)
                 (mem_hooks mem (host_addr reg))
           | _ \<Rightarrow> Some (-1, info)))"


section \<open>Well-formed maps\<close>

definition covers :: "shadow_region \<Rightarrow> addr_t \<Rightarrow> bool" where
  "covers r a \<longleftrightarrow> guest_start r \<le> a \<and> a < guest_end r"

definition region_before :: "shadow_region \<Rightarrow> shadow_region \<Rightarrow> bool" where
  "region_before a b \<longleftrightarrow> guest_end a \<le> guest_start b"

definition regions_overlap :: "shadow_region \<Rightarrow> shadow_region \<Rightarrow> bool" where
  "regions_overlap a b \<longleftrightarrow> guest_start a < guest_end b \<and> guest_start b < guest_end a"

definition region_ok :: "shadow_region \<Rightarrow> bool" where
  "region_ok r \<longleftrightarrow> guest_start r < guest_end r"

definition map_ok :: "shadow_map \<Rightarrow> bool" where
  "map_ok m \<longleftrightarrow> list_all region_ok (sm_regions m) \<and> sorted_wrt region_before (sm_regions m)
     \<and> num_regions m = of_nat (length (sm_regions m))"

lemmas region_defs = covers_def region_before_def regions_overlap_def region_ok_def

lemma overlap_iff_covers:
  assumes "region_ok a" "region_ok b"
  shows "regions_overlap a b \<longleftrightarrow> (\<exists>x. covers a x \<and> covers b x)"
proof
  assume "regions_overlap a b"
  with assms have "covers a (max (guest_start a) (guest_start b)) \<and> covers b (max (guest_start a) (guest_start b))"
    by (auto simp: region_defs max_def)
  then show "\<exists>x. covers a x \<and> covers b x" by blast
qed (auto simp: region_defs)

lemma region_at_addr_before:
  "list_all region_ok l \<Longrightarrow> sorted_wrt region_before (r # l) \<Longrightarrow> a < guest_end r \<Longrightarrow> region_at_addr l a = None"
  by (cases l) (auto simp: region_defs)

lemma region_at_addr_iff:
  assumes "list_all region_ok l" "sorted_wrt region_before l"
  shows "region_at_addr l a = Some r \<longleftrightarrow> r \<in> set l \<and> covers r a"
  using assms
proof (induction l)
  case (Cons x l)
  have x: "region_ok x" and before: "\<forall>y\<in>set l. guest_end x \<le> guest_start y"
    using Cons.prems by (auto simp: region_before_def)
  show ?case
  proof (cases "a < guest_end x")
    case True
    then have "\<not> covers y a" if "y \<in> set l" for y
      using before that by (auto simp: covers_def)
    then show ?thesis using True x by (auto simp: covers_def region_ok_def)
  next
    case False
    then show ?thesis using Cons x by (auto simp: covers_def region_ok_def)
  qed
qed simp

lemma region_at_addr_eqI:
  assumes "list_all region_ok l" "sorted_wrt region_before l"
    and "list_all region_ok l'" "sorted_wrt region_before l'"
    and "set l' = insert r (set l)" "\<forall>x\<in>set l. \<not> regions_overlap x r"
  shows "region_at_addr l' a = (if covers r a then Some r else region_at_addr l a)"
proof -
  have "covers r a \<Longrightarrow> x \<in> set l \<Longrightarrow> \<not> covers x a" for x
    using assms(5,6) overlap_iff_covers[of x r] assms(1,3) by (auto simp: list_all_iff)
  then have "region_at_addr l' a = Some y \<longleftrightarrow> (if covers r a then y = r else region_at_addr l a = Some y)" for y
    using region_at_addr_iff[OF assms(1,2)] region_at_addr_iff[OF assms(3,4)] assms(5) by auto
  then show ?thesis by (cases "covers r a") (simp, metis not_None_eq)
qed

section \<open>Insertion\<close>

lemma add_region_loop_set:
  "add_region_loop r l = Some l' \<Longrightarrow> set l' = insert r (set l) \<and> length l' = Suc (length l)"
  by (induction r l arbitrary: l' rule: add_region_loop.induct) (auto split: if_splits)

text \<open>Past a cursor that starts before the new region, the loop accepts exactly the regions that
  overlap nothing, and puts them where the order is kept.\<close>

lemma add_region_loop_ok:
  assumes "list_all region_ok (c # l)" "sorted_wrt region_before (c # l)" "region_ok r"
    and "guest_start c < guest_start r"
  shows "((\<exists>l'. add_region_loop r (c # l) = Some l') \<longleftrightarrow> (\<forall>x\<in>set (c # l). \<not> regions_overlap x r))
    \<and> (\<forall>l'. add_region_loop r (c # l) = Some l' \<longrightarrow> list_all region_ok l' \<and> sorted_wrt region_before l')"
  using assms
proof (induction l arbitrary: c)
  case Nil
  then show ?case by (auto simp: region_defs)
next
  case (Cons n l)
  note p = Cons.prems(3,4)
  have q: "region_ok c" "region_ok n" "list_all region_ok (n # l)" "list_all region_ok l"
    "sorted_wrt region_before (n # l)" "region_before c n"
    "\<forall>y\<in>set l. region_before n y \<and> region_before c y"
    using Cons.prems by simp_all
  show ?case
  proof (cases "guest_end n \<le> guest_start r")
    case True
    then have "guest_start n < guest_start r" using q by (auto simp: region_ok_def)
    note ih = Cons.IH[OF q(3,5) p(1) this]
    have c: "\<not> regions_overlap c r" "\<not> guest_start r < guest_end c" "\<not> guest_end r \<le> guest_start n"
      using True q p by (auto simp: region_defs)
    then have cr: "region_before c r" by (simp add: region_before_def)
    from c have eq: "add_region_loop r (c # n # l) = map_option (\<lambda>l. c # l) (add_region_loop r (n # l))"
      using True by simp
    have "sorted_wrt region_before (c # l')" if "add_region_loop r (n # l) = Some l'" for l'
      using ih that add_region_loop_set[OF that] q cr by auto
    then show ?thesis using ih c q(1) unfolding eq by auto
  next
    case False
    show ?thesis
    proof (cases "guest_end r \<le> guest_start n")
      case True
      then have rb: "\<forall>y\<in>set (n # l). region_before r y"
        using q by (force simp: region_before_def region_ok_def)
      then have "\<forall>y\<in>set (n # l). \<not> regions_overlap y r"
        by (auto simp: region_before_def regions_overlap_def)
      moreover have "regions_overlap c r \<longleftrightarrow> guest_start r < guest_end c"
        using p by (auto simp: region_defs)
      moreover have "\<not> guest_start r < guest_end c \<Longrightarrow> region_before c r" by (simp add: region_before_def)
      ultimately show ?thesis using True p q rb by auto
    next
      case n: False
      then have "regions_overlap n r" using False by (auto simp: regions_overlap_def)
      then show ?thesis using False n by auto
    qed
  qed
qed

text \<open>The case the insertion does not look at: the new region starts at or before the first region
  and reaches into it.\<close>

definition hits_head :: "shadow_map \<Rightarrow> shadow_region \<Rightarrow> bool" where
  "hits_head m r \<longleftrightarrow> (case sm_regions m of [] \<Rightarrow> False
     | h # _ \<Rightarrow> guest_start r \<le> guest_start h \<and> guest_start h < guest_end r)"

lemma add_shadow_region_list:
  assumes "map_ok m" "region_ok r" "\<not> hits_head m r"
  shows "(fst (add_shadow_region m r) = 0 \<longleftrightarrow> (\<forall>x \<in> set (sm_regions m). \<not> regions_overlap x r))
    \<and> (fst (add_shadow_region m r) \<noteq> 0 \<longrightarrow> add_shadow_region m r = (-1, m))
    \<and> (fst (add_shadow_region m r) = 0 \<longrightarrow> map_ok (snd (add_shadow_region m r))
          \<and> set (sm_regions (snd (add_shadow_region m r))) = insert r (set (sm_regions m)))"
proof (cases "sm_regions m")
  case Nil
  then show ?thesis using assms by (simp add: add_shadow_region_def map_ok_def)
next
  case (Cons h t)
  have ok: "list_all region_ok (h # t)" "sorted_wrt region_before (h # t)"
    "num_regions m = of_nat (length (h # t))" using assms(1) Cons by (auto simp: map_ok_def)
  show ?thesis
  proof (cases "guest_start h \<ge> guest_end r")
    case True
    have "\<forall>y\<in>set (h # t). region_before r y"
      using True ok by (force simp: region_before_def region_ok_def)
    then have "sorted_wrt region_before (r # h # t)" "\<forall>x \<in> set (h # t). \<not> regions_overlap x r"
      using ok by (auto simp: regions_overlap_def region_before_def)
    then show ?thesis using True Cons ok assms(2) by (simp add: add_shadow_region_def map_ok_def)
  next
    case False
    then have "guest_start h < guest_start r" using assms(3) Cons by (auto simp: hits_head_def)
    note l = add_region_loop_ok[OF ok(1,2) assms(2) this]
    show ?thesis using l False Cons ok(3)
      by (cases "add_region_loop r (h # t)")
        (auto simp: add_shadow_region_def map_ok_def dest: add_region_loop_set)
  qed
qed

section \<open>Properties\<close>

definition demo_region :: "addr_t \<Rightarrow> addr_t \<Rightarrow> addr_t \<Rightarrow> shadow_region" where
  "demo_region s e h = (init_shadow_region 0x9000 s e
     GUEST_REGION_PHYSICAL_MEMORY HOST_REGION_PHYSICAL_MEMORY)\<lparr>host_addr := h\<rparr>"

definition demo_shadow_map :: shadow_map where
  "demo_shadow_map = \<lparr>num_regions = 2, sm_regions = [demo_region 0x1000 0x3000 0x50000, demo_region 0x8000 0x9000 0x70000]\<rparr>"

lemma demo_shadow_map_ok: "map_ok demo_shadow_map"
  by (simp add: demo_shadow_map_def demo_region_def init_shadow_region_def map_ok_def region_defs)

text \<open>C16: On a well-formed map the address lookup, which stops at the first region that starts past
  the address, finds a region exactly when some region of the map contains the address.\<close>

theorem get_shadow_region_by_addr_spec:
  assumes "map_ok m"
  shows "get_shadow_region_by_addr m a = Some r \<longleftrightarrow> r \<in> set (sm_regions m) \<and> covers r a"
  using assms region_at_addr_iff[of "sm_regions m"] by (simp add: get_shadow_region_by_addr_def map_ok_def)

lemma get_shadow_region_by_addr_spec_witness:
  "get_shadow_region_by_addr demo_shadow_map 0x8004 = Some (demo_region 0x8000 0x9000 0x70000)"
  using get_shadow_region_by_addr_spec[OF demo_shadow_map_ok]
  by (simp add: demo_shadow_map_def demo_region_def init_shadow_region_def covers_def)

text \<open>C9: Unless the new region reaches into the first region from at or below its start,
  \<open>add_shadow_region\<close> succeeds exactly when the region overlaps no region of the map; success
  keeps the map well-formed and makes exactly the addresses of the new region resolve to it,
  and failure leaves the map alone.\<close>

theorem add_shadow_region_spec:
  assumes "map_ok m" "region_ok r" "\<not> hits_head m r"
  shows "\<exists>ret m'. add_shadow_region m r = (ret, m') \<and> map_ok m'
    \<and> (if \<exists>x \<in> set (sm_regions m). regions_overlap x r then ret = -1 \<and> m' = m
       else ret = 0 \<and> (\<forall>a. get_shadow_region_by_addr m' a
                          = (if covers r a then Some r else get_shadow_region_by_addr m a)))"
proof -
  obtain ret m' where e: "add_shadow_region m r = (ret, m')" by (cases "add_shadow_region m r")
  note l = add_shadow_region_list[OF assms, unfolded e fst_conv snd_conv]
  show ?thesis
  proof (cases "\<exists>x \<in> set (sm_regions m). regions_overlap x r")
    case True
    then show ?thesis using l e assms(1) by auto
  next
    case False
    then have m': "ret = 0" "map_ok m'" "set (sm_regions m') = insert r (set (sm_regions m))" using l by auto
    have "region_at_addr (sm_regions m') a = (if covers r a then Some r else region_at_addr (sm_regions m) a)" for a
      by (rule region_at_addr_eqI) (use m' assms(1) False in \<open>auto simp: map_ok_def\<close>)
    then show ?thesis using e m' False by (simp add: get_shadow_region_by_addr_def)
  qed
qed

lemma add_shadow_region_spec_witness:
  "fst (add_shadow_region demo_shadow_map (demo_region 0x4000 0x5000 0x100000)) = 0
   \<and> map_ok (snd (add_shadow_region demo_shadow_map (demo_region 0x4000 0x5000 0x100000)))"
  using add_shadow_region_spec[OF demo_shadow_map_ok, of "demo_region 0x4000 0x5000 0x100000"]
  by (auto simp: demo_shadow_map_def demo_region_def init_shadow_region_def region_defs hits_head_def)

text \<open>C32: The case left out is a defect: with one region in the map, a region that starts below it
  and reaches into it is accepted although the two overlap, the map stops being well-formed, and
  an address of the new region that lies below the old one still resolves to nothing.\<close>

theorem add_shadow_region_overlap_accepted:
  assumes "sm_regions m = [h]" "guest_start r \<le> a" "a < guest_start h" "guest_start h < guest_end r"
    "region_ok h"
  shows "fst (add_shadow_region m r) = 0 \<and> regions_overlap h r
    \<and> \<not> map_ok (snd (add_shadow_region m r))
    \<and> get_shadow_region_by_addr (snd (add_shadow_region m r)) a = None \<and> covers r a"
  using assms by (auto simp: add_shadow_region_def map_ok_def get_shadow_region_by_addr_def region_defs)

lemma add_shadow_region_overlap_accepted_witness:
  "fst (add_shadow_region \<lparr>num_regions = 1, sm_regions = [demo_region 0x4000 0x8000 0]\<rparr> (demo_region 0x2000 0x6000 0)) = 0"
  using add_shadow_region_overlap_accepted[where m = "\<lparr>num_regions = 1, sm_regions = [demo_region 0x4000 0x8000 0]\<rparr>"
      and h = "demo_region 0x4000 0x8000 0" and r = "demo_region 0x2000 0x6000 0" and a = "0x3000"]
  by (simp add: demo_region_def init_shadow_region_def region_ok_def)

text \<open>C25: Hooking a free range of guest memory makes a fault on any of its addresses run the hook's
  write or read handler, by the kind of the access, with the hook's private data; a failed emulation
  is reported as -1 and anything else as 0.\<close>

theorem hook_guest_mem_dispatch:
  assumes "map_ok (mem_map info)" "gs \<le> gpa" "gpa < ge"
    and "\<not> hits_head (mem_map info) ((init_shadow_region entry gs ge
           GUEST_REGION_PHYSICAL_MEMORY HOST_REGION_HOOK)\<lparr>host_addr := hook\<rparr>)"
    and "hook_guest_mem info gs ge rd wr priv entry hook = (0, info')"
    and "(if wrt then ew s gva wr gpa priv else er s gva rd gpa priv) = (ret, s')"
  shows "handle_special_page_fault ew er info' s gva gpa wrt = Some (if ret = -1 then -1 else 0, s')"
proof -
  let ?r = "(init_shadow_region entry gs ge GUEST_REGION_PHYSICAL_MEMORY HOST_REGION_HOOK)\<lparr>host_addr := hook\<rparr>"
  have r: "region_ok ?r" "covers ?r gpa"
    using assms(2,3) by (auto simp: init_shadow_region_def region_defs)
  obtain rt m' where a: "add_shadow_region (mem_map info) ?r = (rt, m')"
    by (cases "add_shadow_region (mem_map info) ?r")
  have "rt = 0" "mem_map info' = m'"
    "mem_hooks info' hook = Some \<lparr>mh_read = rd, mh_write = wr, mh_priv_data = priv, mh_region = entry\<rparr>"
    using assms(5) a by (auto simp: hook_guest_mem_def Let_def)
  with add_shadow_region_list[OF assms(1) r(1) assms(4)] a
  have "map_ok (mem_map info')" "?r \<in> set (sm_regions (mem_map info'))" by auto
  then have "get_shadow_region_by_addr (mem_map info') gpa = Some ?r"
    using r(2) region_at_addr_iff[of "sm_regions (mem_map info')" gpa ?r]
    by (simp add: get_shadow_region_by_addr_def map_ok_def)
  with assms(6) \<open>mem_hooks info' hook = _\<close> show ?thesis
    by (auto simp: handle_special_page_fault_def mem_hook_dispatch_def init_shadow_region_def split: if_splits)
qed

lemma hook_guest_mem_dispatch_witness:
  "handle_special_page_fault (\<lambda>s gva h gpa p. (0, s @ [h, gpa])) (\<lambda>s gva h gpa p. (-1, s))
     (snd (hook_guest_mem \<lparr>mem_map = demo_shadow_map, mem_hooks = (\<lambda>_. None)\<rparr> 0xa000 0xb000 1 2 3 0x40 0x80))
     [] 0x77 0xa010 True = Some (0, [2, 0xa010])"
  using hook_guest_mem_dispatch[where info = "\<lparr>mem_map = demo_shadow_map, mem_hooks = (\<lambda>_. None)\<rparr>"
      and gs = "0xa000" and ge = "0xb000" and gpa = "0xa010" and entry = "0x40" and hook = "0x80"
      and rd = 1 and wr = 2 and priv = 3 and wrt = True and gva = "0x77" and s = "[]" and ret = 0
      and s' = "[2, 0xa010]" and ew = "\<lambda>s gva h gpa p. (0, s @ [h, gpa])" and er = "\<lambda>s gva h gpa p. (-1, s)"
      and info' = "snd (hook_guest_mem \<lparr>mem_map = demo_shadow_map, mem_hooks = (\<lambda>_. None)\<rparr> 0xa000 0xb000 1 2 3 0x40 0x80)"]
    demo_shadow_map_ok
  by (simp add: hits_head_def demo_shadow_map_def demo_region_def init_shadow_region_def
      hook_guest_mem_def add_shadow_region_def)

end
