(* ===== verification/V3_Paging.thy ===== *)
theory V3_Paging
  imports V3_Mem
begin

text \<open>
  Two-level 32-bit page tables (\<^verbatim>\<open>vmm_paging.h\<close>, \<^verbatim>\<open>vmm_paging.c\<close>). A table is an address in
  host memory and an entry is the 32-bit word there; the bit-field structures \<open>pde32_t\<close>,
  \<open>pde32_4MB_t\<close> and \<open>pte32_t\<close> are positions in that word. The address macros
  \<open>PDE32_T_ADDR\<close>, \<open>PTE32_T_ADDR\<close> and \<open>PDE32_4MB_T_ADDR\<close> shift a bit-field that C promotes to
  \<open>int\<close>: their value here is the 32-bit pattern of that \<open>int\<close>, and each use converts it the way C
  does (sign extension when it is assigned to an \<open>addr_t\<close>, unsigned 32-bit arithmetic when it
  meets a \<open>uint_t\<close>).
\<close>

section \<open>Indexes and addresses\<close>

definition MAX_PTE32_ENTRIES :: nat where "MAX_PTE32_ENTRIES = 1024"
definition MAX_PDE32_ENTRIES :: nat where "MAX_PDE32_ENTRIES = 1024"
definition PAGE_POWER :: nat where "PAGE_POWER = 12"
definition PAGE_SIZE :: nat where "PAGE_SIZE = 4096"

definition PDE32_INDEX :: "addr_t \<Rightarrow> uint_t" where "PDE32_INDEX x = drop_bit 22 (ucast x) AND 0x3ff"
definition PTE32_INDEX :: "addr_t \<Rightarrow> uint_t" where "PTE32_INDEX x = drop_bit 12 (ucast x) AND 0x3ff"
definition PD32_BASE_ADDR :: "addr_t \<Rightarrow> uint_t" where "PD32_BASE_ADDR x = drop_bit 12 (ucast x)"
definition PT32_BASE_ADDR :: "addr_t \<Rightarrow> uint_t" where "PT32_BASE_ADDR x = drop_bit 12 (ucast x)"
definition PD32_4MB_BASE_ADDR :: "addr_t \<Rightarrow> uint_t" where "PD32_4MB_BASE_ADDR x = drop_bit 22 (ucast x)"
definition PT32_PAGE_ADDR :: "addr_t \<Rightarrow> uint_t" where "PT32_PAGE_ADDR x = ucast x AND 0xfffff000"
definition PT32_PAGE_OFFSET :: "addr_t \<Rightarrow> uint_t" where "PT32_PAGE_OFFSET x = ucast x AND 0xfff"
definition PD32_4MB_PAGE_ADDR :: "addr_t \<Rightarrow> uint_t" where "PD32_4MB_PAGE_ADDR x = ucast x AND 0xffc00000"
definition PD32_4MB_PAGE_OFFSET :: "addr_t \<Rightarrow> uint_t" where "PD32_4MB_PAGE_OFFSET x = ucast x AND 0x003fffff"
definition PAGE_OFFSET :: "addr_t \<Rightarrow> uint_t" where "PAGE_OFFSET x = ucast x AND 0xfff"
definition PAGE_ALIGNED_ADDR :: "addr_t \<Rightarrow> uint_t" where "PAGE_ALIGNED_ADDR x = drop_bit 12 (ucast x)"
definition PAGE_ADDR :: "addr_t \<Rightarrow> uint_t" where "PAGE_ADDR x = push_bit 12 (PAGE_ALIGNED_ADDR x)"

text \<open>\<open>V3_VAddr\<close> of the host is an argument.\<close>

definition CR3_TO_PDE32 :: "(addr_t \<Rightarrow> addr_t) \<Rightarrow> addr_t \<Rightarrow> addr_t" where
  "CR3_TO_PDE32 V3_VAddr cr3 = V3_VAddr (cr3 AND 0xfffff000)"

section \<open>Entries\<close>

definition pt_present :: "uint_t \<Rightarrow> bool" where "pt_present e = bf_flag 0 e"
definition pt_writable :: "uint_t \<Rightarrow> bool" where "pt_writable e = bf_flag 1 e"
definition pt_user_page :: "uint_t \<Rightarrow> bool" where "pt_user_page e = bf_flag 2 e"
definition pt_write_through :: "uint_t \<Rightarrow> bool" where "pt_write_through e = bf_flag 3 e"
definition pt_cache_disable :: "uint_t \<Rightarrow> bool" where "pt_cache_disable e = bf_flag 4 e"
definition pt_accessed :: "uint_t \<Rightarrow> bool" where "pt_accessed e = bf_flag 5 e"
definition pt_dirty :: "uint_t \<Rightarrow> bool" where "pt_dirty e = bf_flag 6 e"
definition pde_large_page :: "uint_t \<Rightarrow> bool" where "pde_large_page e = bf_flag 7 e"
definition pt_global_page :: "uint_t \<Rightarrow> bool" where "pt_global_page e = bf_flag 8 e"
definition pt_vmm_info :: "uint_t \<Rightarrow> uint_t" where "pt_vmm_info e = bf_get 9 3 e"
definition pt_base_addr :: "uint_t \<Rightarrow> uint_t" where "pt_base_addr e = bf_get 12 20 e"
definition pde_4MB_base_addr :: "uint_t \<Rightarrow> uint_t" where "pde_4MB_base_addr e = bf_get 22 10 e"

definition PDE32_T_ADDR :: "uint_t \<Rightarrow> uint_t" where "PDE32_T_ADDR e = push_bit 12 (pt_base_addr e)"
definition PTE32_T_ADDR :: "uint_t \<Rightarrow> uint_t" where "PTE32_T_ADDR e = push_bit 12 (pt_base_addr e)"
definition PDE32_4MB_T_ADDR :: "uint_t \<Rightarrow> uint_t" where "PDE32_4MB_T_ADDR e = push_bit 22 (pde_4MB_base_addr e)"

definition PT32_HOOK :: uint_t where "PT32_HOOK = 0x1"
definition PT32_GUEST_PT :: uint_t where "PT32_GUEST_PT = 0x2"

datatype pde32_entry_type = PDE32_ENTRY_NOT_PRESENT | PDE32_ENTRY_PTE32 | PDE32_ENTRY_LARGE_PAGE

datatype pt_access_status = PT_ACCESS_OK | PT_ENTRY_NOT_PRESENT | PT_WRITE_ERROR | PT_USER_ERROR

record pf_error =
  pf_present :: bool
  pf_write :: bool
  pf_user :: bool
  pf_rsvd_access :: bool
  pf_ifetch :: bool
  pf_rsvd :: uint_t

text \<open>The error code as the 32-bit word the guest sees.\<close>

definition pf_error_word :: "pf_error \<Rightarrow> uint_t" where
  "pf_error_word e = of_bool (pf_present e) OR push_bit 1 (of_bool (pf_write e)) OR push_bit 2 (of_bool (pf_user e))
     OR push_bit 3 (of_bool (pf_rsvd_access e)) OR push_bit 4 (of_bool (pf_ifetch e)) OR push_bit 5 (pf_rsvd e)"

text \<open>The address of an entry of a table.\<close>

definition pde_at :: "addr_t \<Rightarrow> addr_t \<Rightarrow> addr_t" where
  "pde_at pd addr = pd + 4 * ucast (PDE32_INDEX addr)"

definition pte_at :: "addr_t \<Rightarrow> addr_t \<Rightarrow> addr_t" where
  "pte_at pt addr = pt + 4 * ucast (PTE32_INDEX addr)"

section \<open>Lookups\<close>

definition pde32_lookup :: "mem \<Rightarrow> addr_t \<Rightarrow> addr_t \<Rightarrow> pde32_entry_type \<times> addr_t" where
  "pde32_lookup mem pd addr =
     (let pde_entry = load32 mem (pde_at pd addr)
      in if \<not> pt_present pde_entry then (PDE32_ENTRY_NOT_PRESENT, 0)
         else if pde_large_page pde_entry
         then (PDE32_ENTRY_LARGE_PAGE,
               scast (PDE32_4MB_T_ADDR pde_entry) + ucast (PD32_4MB_PAGE_OFFSET addr))
         else (PDE32_ENTRY_PTE32, scast (PDE32_T_ADDR pde_entry)))"

definition pte32_lookup :: "mem \<Rightarrow> addr_t \<Rightarrow> addr_t \<Rightarrow> int \<times> addr_t" where
  "pte32_lookup mem pt addr =
     (let pte_entry = load32 mem (pte_at pt addr)
      in if \<not> pt_present pte_entry then (-1, 0)
         else (0, ucast (PTE32_T_ADDR pte_entry + PT32_PAGE_OFFSET addr)))"

text \<open>The address is \<open>None\<close> where the code does not write \<open>*paddr\<close>.\<close>

definition pt32_lookup :: "mem \<Rightarrow> addr_t \<Rightarrow> addr_t \<Rightarrow> int \<times> addr_t option" where
  "pt32_lookup mem pd vaddr =
     (if pd = 0 then (-1, None)
      else case pde32_lookup mem pd vaddr of
             (PDE32_ENTRY_PTE32, pde_entry) \<Rightarrow>
               (case pte32_lookup mem pde_entry vaddr of (ret, a) \<Rightarrow> (ret, Some a))
           | (PDE32_ENTRY_LARGE_PAGE, pde_entry) \<Rightarrow> (0, Some pde_entry)
           | (PDE32_ENTRY_NOT_PRESENT, _) \<Rightarrow> (-1, None))"

definition can_access_entry :: "uint_t \<Rightarrow> pf_error \<Rightarrow> pt_access_status" where
  "can_access_entry entry access_type =
     (if \<not> pt_present entry then PT_ENTRY_NOT_PRESENT
      else if \<not> pt_writable entry \<and> pf_write access_type then PT_WRITE_ERROR
      else if \<not> pt_user_page entry \<and> pf_user access_type then PT_USER_ERROR
      else PT_ACCESS_OK)"

definition can_access_pde32 :: "mem \<Rightarrow> addr_t \<Rightarrow> addr_t \<Rightarrow> pf_error \<Rightarrow> pt_access_status" where
  "can_access_pde32 mem pde addr access_type = can_access_entry (load32 mem (pde_at pde addr)) access_type"

definition can_access_pte32 :: "mem \<Rightarrow> addr_t \<Rightarrow> addr_t \<Rightarrow> pf_error \<Rightarrow> pt_access_status" where
  "can_access_pte32 mem pte addr access_type = can_access_entry (load32 mem (pte_at pte addr)) access_type"

text \<open>The physical pages given back, in order. Here the code casts to \<open>uint_t\<close> before \<open>addr_t\<close>.\<close>

definition delete_page_tables_pde32 :: "(addr_t \<Rightarrow> addr_t) \<Rightarrow> mem \<Rightarrow> addr_t \<Rightarrow> addr_t list" where
  "delete_page_tables_pde32 V3_PAddr mem pde =
     (if pde = 0 then []
      else map (\<lambda>i. ucast (push_bit PAGE_POWER (pt_base_addr (load32 mem (pde + 4 * of_nat i)))))
             (filter (\<lambda>i. pt_present (load32 mem (pde + 4 * of_nat i))) [0..<MAX_PDE32_ENTRIES])
           @ [V3_PAddr pde])"


section \<open>The translation the hardware defines\<close>

text \<open>Two-level translation on numbers, as the processor manuals describe it: the table addresses and the
  result are the aligned base in the entry plus the offset in the virtual address.\<close>

definition x86_pde :: "mem \<Rightarrow> addr_t \<Rightarrow> nat \<Rightarrow> nat" where
  "x86_pde mem pd va = unat (load32 mem (pd + 4 * of_nat (va div 2 ^ 22 mod 2 ^ 10)))"

definition x86_walk :: "mem \<Rightarrow> addr_t \<Rightarrow> nat \<Rightarrow> nat option" where
  "x86_walk mem pd va =
     (let pde = x86_pde mem pd va
      in if even pde then None
         else if odd (pde div 2 ^ 7) then Some (pde div 2 ^ 22 * 2 ^ 22 + va mod 2 ^ 22)
         else let pte = unat (load32 mem (of_nat (pde div 2 ^ 12 * 2 ^ 12) + 4 * of_nat (va div 2 ^ 12 mod 2 ^ 10)))
              in if even pte then None else Some (pte div 2 ^ 12 * 2 ^ 12 + va mod 2 ^ 12))"

lemma unat_take_drop_ucast:
  fixes x :: addr_t
  assumes "n + m \<le> 32"
  shows "unat (take_bit m (drop_bit n (ucast x :: uint_t))) = unat x div 2 ^ n mod 2 ^ m"
proof -
  have "take_bit m (drop_bit n (take_bit 32 (unat x))) = take_bit m (drop_bit n (unat x))"
    using assms by (intro bit_eqI) (auto simp: bit_simps)
  then show ?thesis
    unfolding unsigned_take_bit_eq unsigned_drop_bit_eq unsigned_ucast_eq
    by (simp add: take_bit_eq_mod drop_bit_eq_div)
qed

lemma unat_PDE32_INDEX: "unat (PDE32_INDEX x) = unat x div 2 ^ 22 mod 2 ^ 10"
  unfolding PDE32_INDEX_def and_mask_take_bit by (rule unat_take_drop_ucast) simp

lemma unat_PTE32_INDEX: "unat (PTE32_INDEX x) = unat x div 2 ^ 12 mod 2 ^ 10"
  unfolding PTE32_INDEX_def and_mask_take_bit by (rule unat_take_drop_ucast) simp

lemma unat_PT32_PAGE_OFFSET: "unat (PT32_PAGE_OFFSET x) = unat x mod 2 ^ 12"
  unfolding PT32_PAGE_OFFSET_def and_mask_take_bit using unat_take_drop_ucast[of 0 12 x] by simp

lemma unat_PD32_4MB_PAGE_OFFSET: "unat (PD32_4MB_PAGE_OFFSET x) = unat x mod 2 ^ 22"
  unfolding PD32_4MB_PAGE_OFFSET_def and_mask_take_bit using unat_take_drop_ucast[of 0 22 x] by simp

lemma ucast_of_unat: "(ucast (w :: uint_t) :: addr_t) = of_nat (unat w)"
  using unat_lt32[of w] by (simp add: word_unat_eq_iff unat_ucast_up unat_of_nat)

lemma pde_at_nat: "pde_at pd x = pd + 4 * of_nat (unat x div 2 ^ 22 mod 2 ^ 10)"
  by (simp only: pde_at_def ucast_of_unat unat_PDE32_INDEX)

lemma pte_at_nat: "pte_at pt x = pt + 4 * of_nat (unat x div 2 ^ 12 mod 2 ^ 10)"
  by (simp only: pte_at_def ucast_of_unat unat_PTE32_INDEX)

lemma unat_shift_base:
  fixes e :: uint_t
  assumes "n + m = 32"
  shows "unat (push_bit n (bf_get n m e)) = unat e div 2 ^ n * 2 ^ n"
proof -
  have "unat (push_bit n (bf_get n m e)) = push_bit n (drop_bit n (unat e))"
    using assms by (intro bit_eqI) (auto simp: bit_simps bit_bf_get dest: bit_imp_le_length)
  then show ?thesis by (simp add: push_bit_eq_mult drop_bit_eq_div)
qed


lemma bf_flag_nat: "i < 32 \<Longrightarrow> bf_flag i e \<longleftrightarrow> odd (unat e div 2 ^ i)" for e :: uint_t
proof -
  assume "i < 32"
  then have "bf_flag i e \<longleftrightarrow> bit (unat e) i" by (simp add: bf_flag_def bit_unsigned_iff)
  then show ?thesis by (simp add: bit_iff_odd)
qed

lemma entry_flags_nat:
  "pt_present e \<longleftrightarrow> odd (unat e)" "pde_large_page e \<longleftrightarrow> odd (unat e div 2 ^ 7)"
  using bf_flag_nat[of 0 e] bf_flag_nat[of 7 e] by (simp_all add: pt_present_def pde_large_page_def)

lemma unat_T_ADDR:
  "unat (PDE32_T_ADDR e) = unat e div 2 ^ 12 * 2 ^ 12" "unat (PTE32_T_ADDR e) = unat e div 2 ^ 12 * 2 ^ 12"
  "unat (PDE32_4MB_T_ADDR e) = unat e div 2 ^ 22 * 2 ^ 22"
  using unat_shift_base[of 12 20 e] unat_shift_base[of 22 10 e]
  by (simp_all add: PDE32_T_ADDR_def PTE32_T_ADDR_def PDE32_4MB_T_ADDR_def pt_base_addr_def pde_4MB_base_addr_def)

lemma base_le: "(n :: nat) div b * b \<le> n"
  by (rule div_times_less_eq_dividend)

lemma base_plus_offset:
  assumes "e < 2 ^ 32" "k < 2 ^ 12"
  shows "e div 2 ^ 12 * 2 ^ 12 + k < (2 ^ 32 :: nat)"
proof -
  have "e div 4096 < 1048576" using assms(1) by (simp add: less_mult_imp_div_less)
  then have "e div 4096 * 4096 \<le> 1048575 * 4096" by (intro mult_le_mono1) simp
  with assms(2) show ?thesis by simp
qed

lemma scast_base:
  fixes b :: uint_t
  assumes "unat b \<le> e" "e < 2 ^ 31"
  shows "(scast b :: addr_t) = of_nat (unat b)"
  using unat_scast_low(1)[OF le_less_trans[OF assms]] by (simp only: ucast_of_unat)

lemma pte32_lookup_nat:
  "pte32_lookup mem pt x =
     (let pte = unat (load32 mem (pt + 4 * of_nat (unat x div 2 ^ 12 mod 2 ^ 10)))
      in if even pte then (-1, 0) else (0, of_nat (pte div 2 ^ 12 * 2 ^ 12 + unat x mod 2 ^ 12)))"
proof -
  let ?e = "load32 mem (pt + 4 * of_nat (unat x div 2 ^ 12 mod 2 ^ 10))"
  have "unat (PTE32_T_ADDR ?e) + unat (PT32_PAGE_OFFSET x) < 2 ^ 32"
    unfolding unat_T_ADDR unat_PT32_PAGE_OFFSET by (rule base_plus_offset) (use unat_lt32[of ?e] in simp_all)
  then have "unat (PTE32_T_ADDR ?e + PT32_PAGE_OFFSET x) = unat ?e div 2 ^ 12 * 2 ^ 12 + unat x mod 2 ^ 12"
    unfolding unat_T_ADDR(2)[symmetric] unat_PT32_PAGE_OFFSET[symmetric] by (simp add: unat_word_ariths)
  then show ?thesis
    unfolding pte32_lookup_def pte_at_nat Let_def entry_flags_nat ucast_of_unat by simp
qed

lemma pde32_lookup_nat:
  assumes "x86_pde mem pd (unat x) < 2 ^ 31"
  shows "pde32_lookup mem pd x =
     (let pde = x86_pde mem pd (unat x)
      in if even pde then (PDE32_ENTRY_NOT_PRESENT, 0)
         else if odd (pde div 2 ^ 7) then (PDE32_ENTRY_LARGE_PAGE, of_nat (pde div 2 ^ 22 * 2 ^ 22 + unat x mod 2 ^ 22))
         else (PDE32_ENTRY_PTE32, of_nat (pde div 2 ^ 12 * 2 ^ 12)))"
proof -
  define e where "e = load32 mem (pd + 4 * of_nat (unat x div 2 ^ 22 mod 2 ^ 10))"
  have xe: "x86_pde mem pd (unat x) = unat e" by (simp add: x86_pde_def e_def)
  have lt: "unat e < 2 ^ 31" using assms by (simp add: xe)
  have pe: "load32 mem (pde_at pd x) = e" by (simp add: pde_at_nat e_def)
  have "(scast (PDE32_4MB_T_ADDR e) :: addr_t) + ucast (PD32_4MB_PAGE_OFFSET x)
      = of_nat (unat e div 2 ^ 22 * 2 ^ 22 + unat x mod 2 ^ 22)"
    unfolding ucast_of_unat unat_PD32_4MB_PAGE_OFFSET
    using scast_base[of "PDE32_4MB_T_ADDR e" "unat e"] lt base_le[of "unat e" "2 ^ 22"] by (simp add: unat_T_ADDR)
  moreover have "(scast (PDE32_T_ADDR e) :: addr_t) = of_nat (unat e div 2 ^ 12 * 2 ^ 12)"
    using scast_base[of "PDE32_T_ADDR e" "unat e"] lt base_le[of "unat e" "2 ^ 12"] by (simp add: unat_T_ADDR)
  ultimately show ?thesis by (simp add: xe Let_def pde32_lookup_def pe entry_flags_nat)
qed

section \<open>Properties\<close>

text \<open>C6: The page table lookup computes the two-level translation of the processor, 4 KB and 4 MB pages,
  whenever the directory entry it uses lies below 2 GB: it returns the translated address, and -1
  exactly when a level is not present.\<close>

theorem pt32_lookup_x86:
  assumes "pd \<noteq> 0" "x86_pde mem pd (unat va) < 2 ^ 31"
  shows "case x86_walk mem pd (unat va) of
      None \<Rightarrow> fst (pt32_lookup mem pd va) = -1
    | Some pa \<Rightarrow> pt32_lookup mem pd va = (0, Some (of_nat pa))"
  using assms(1) unfolding pt32_lookup_def pde32_lookup_nat[OF assms(2)] x86_walk_def
  by (simp add: Let_def pte32_lookup_nat)

definition demo_tables :: mem where
  "demo_tables = store32 (store32 (\<lambda>_. 0) 0x1004 0x2067) 0x200c 0x5067"

lemma demo_tables_load: "load32 demo_tables 0x1004 = 0x2067" "load32 demo_tables 0x200c = 0x5067"
  by (simp_all add: demo_tables_def mem_simps disjoint32_def)

lemma pt32_lookup_x86_witness: "pt32_lookup demo_tables 0x1000 0x403abc = (0, Some 0x5abc)"
  using pt32_lookup_x86[of "0x1000" demo_tables "0x403abc"] demo_tables_load
  by (simp add: x86_walk_def x86_pde_def Let_def)

text \<open>C36: From 2 GB on the directory lookup is wrong: the address of the page table is sign extended, so
  all of its upper 32 bits are set, and it is not the address the entry holds.\<close>

theorem pde32_lookup_sign_extends:
  assumes "pt_present e" "\<not> pde_large_page e" "load32 mem (pde_at pd va) = e" "2 ^ 31 \<le> unat e"
  shows "\<exists>a. pde32_lookup mem pd va = (PDE32_ENTRY_PTE32, a) \<and> (\<forall>n. 32 \<le> n \<and> n < 64 \<longrightarrow> bit a n)
    \<and> unat a \<noteq> unat e div 2 ^ 12 * 2 ^ 12"
proof -
  let ?b = "PDE32_T_ADDR e"
  have "2 ^ 31 \<le> unat e div 2 ^ 12 * 2 ^ 12" using assms(4) unat_lt32[of e] by simp
  then have hi: "2 ^ 31 \<le> unat ?b" by (simp add: unat_T_ADDR)
  then have bits: "\<forall>n. 32 \<le> n \<and> n < 64 \<longrightarrow> bit (scast ?b :: addr_t) n" using bit_scast_high[of ?b] by blast
  then have "bit (unat (scast ?b :: addr_t)) 40" by (simp add: bit_unsigned_iff)
  moreover have "\<not> bit (unat ?b) 40" using bit_imp_le_length[of ?b 40] by (auto simp: bit_unsigned_iff)
  ultimately have "unat (scast ?b :: addr_t) \<noteq> unat ?b" by metis
  with bits assms show ?thesis by (simp add: pde32_lookup_def Let_def unat_T_ADDR)
qed

lemma pde32_lookup_sign_extends_witness:
  "\<exists>a. pde32_lookup (store32 (\<lambda>_. 0) 0x1000 0x80000007) 0x1000 0 = (PDE32_ENTRY_PTE32, a) \<and> bit a 63"
  using pde32_lookup_sign_extends[of "0x80000007" "store32 (\<lambda>_. 0) 0x1000 0x80000007" "0x1000" 0]
  by (force simp: entry_flags_nat pde_at_def PDE32_INDEX_def mem_simps)

end
