(* ===== verification/V3_Hashtable.thy ===== *)
theory V3_Hashtable
  imports V3_Prelude "HOL-Library.Multiset"
begin

text \<open>
  The chained hash table of \<^verbatim>\<open>src/palacios/vmm_hashtable.c\<close>. A chain of entries linked by
  \<open>next\<close> is a list of entries, \<open>table\<close> is the list of chains. Every entry keeps the address
  \<open>V3_Malloc\<close> gave it (\<open>he_self\<close>), so that what is freed can be stated. Whether an allocation
  succeeds is an argument of the operations that allocate.
\<close>

section \<open>Hash functions\<close>

record hash_entry =
  he_self :: addr_t
  he_key :: addr_t
  he_value :: addr_t
  he_hash :: uint_t

record hashtable =
  ht_table_length :: uint_t
  ht_table :: "hash_entry list list"
  ht_entry_count :: uint_t
  ht_load_limit :: uint_t
  ht_prime_index :: uint_t
  ht_hash_fn :: "addr_t \<Rightarrow> uint_t"
  ht_eq_fn :: "addr_t \<Rightarrow> addr_t \<Rightarrow> bool"

definition do_hash :: "hashtable \<Rightarrow> addr_t \<Rightarrow> uint_t" where
  "do_hash htable key =
     (let i0 = ht_hash_fn htable key;
          i1 = i0 + NOT (push_bit 9 i0);
          i2 = i1 XOR (drop_bit 14 i1 OR push_bit 18 i1);
          i3 = i2 + push_bit 4 i2
      in i3 XOR (drop_bit 10 i3 OR push_bit 22 i3))"

definition GOLDEN_RATIO_PRIME :: ullong_t where
  "GOLDEN_RATIO_PRIME = 0x9e37fffffffc0001"

text \<open>The 64-bit branch: the multiplication by the prime is spelled out in shifts.\<close>

definition hash_long :: "ullong_t \<Rightarrow> uint_t \<Rightarrow> ullong_t" where
  "hash_long val bits =
     (let n1 = push_bit 18 val; h1 = val - n1;
          n2 = push_bit 33 n1; h2 = h1 - n2;
          n3 = push_bit 3 n2; h3 = h2 + n3;
          n4 = push_bit 3 n3; h4 = h3 - n4;
          n5 = push_bit 4 n4; h5 = h4 + n5;
          n6 = push_bit 2 n5; h6 = h5 + n6
      in drop_bit (64 - unat bits) h6)"

text \<open>The loop of \<open>hash_buffer\<close>: \<open>i\<close> counts the bytes read so far.\<close>

fun hash_buffer_loop :: "uchar_t list \<Rightarrow> uint_t \<Rightarrow> ullong_t \<Rightarrow> ullong_t" where
  "hash_buffer_loop [] i hash = hash"
| "hash_buffer_loop (c # msg) i hash =
     (let h1 = push_bit 4 hash + ucast c + ucast i;
          temp = h1 AND 0xF0000000;
          h2 = (if temp \<noteq> 0 then h1 XOR drop_bit 24 temp else h1)
      in hash_buffer_loop msg (i + 1) (h2 AND NOT temp))"

definition hash_buffer :: "uchar_t list \<Rightarrow> ullong_t" where
  "hash_buffer msg = hash_buffer_loop msg 0 0"

definition indexFor :: "uint_t \<Rightarrow> uint_t \<Rightarrow> uint_t" where
  "indexFor table_length hash_value = hash_value mod table_length"

section \<open>Table sizes\<close>

definition primes :: "uint_t list" where
  "primes = [53, 97, 193, 389, 769, 1543, 3079, 6151, 12289, 24593, 49157, 98317, 196613,
     393241, 786433, 1572869, 3145739, 6291469, 12582917, 25165843, 50331653, 100663319,
     201326611, 402653189, 805306457, 1610612741]"

definition prime_table_length :: uint_t where
  "prime_table_length = 26"

text \<open>
  \<open>max_load_factor\<close> is the float 0.65, that is 10905190 / 2^24. The product with the table
  size is a float, so both the converted size and the product are rounded to 24 significant
  bits (to nearest, ties to even). \<open>v3_ceil\<close> (\<^verbatim>\<open>vmm_string.c\<close>) then works on the double; a
  value \<open>x\<close> is passed here as \<open>x * 2^24\<close>, and its constant \<open>e\<close> is the float 11258999 / 2^50.
\<close>

fun excess_bits :: "nat \<Rightarrow> nat" where
  "excess_bits n = (if n < 2 ^ 24 then 0 else Suc (excess_bits (n div 2)))"

definition fl24 :: "nat \<Rightarrow> nat" where
  "fl24 n =
     (let k = excess_bits n; q = n div 2 ^ k; r = n mod 2 ^ k; r2 = 2 * r
      in if k = 0 then n
         else if 2 ^ k < r2 \<or> (r2 = 2 ^ k \<and> odd q) then (q + 1) * 2 ^ k else q * 2 ^ k)"

definition v3_ceil :: "nat \<Rightarrow> nat" where
  "v3_ceil x24 =
     (if x24 mod 2 ^ 24 = 0 then x24 div 2 ^ 24 else (x24 * 2 ^ 26 + 11258999) div 2 ^ 50 + 1)"

definition load_limit_for :: "uint_t \<Rightarrow> uint_t" where
  "load_limit_for sz = of_nat (v3_ceil (fl24 (fl24 (unat sz) * 10905190)))"

text \<open>The search loop of \<open>create_hashtable\<close>: the size found and the index where the loop stopped.\<close>

fun prime_search :: "uint_t \<Rightarrow> uint_t list \<Rightarrow> uint_t \<Rightarrow> uint_t \<times> uint_t" where
  "prime_search min_size [] prime_index = (hd primes, prime_index)"
| "prime_search min_size (p # ps) prime_index =
     (if min_size < p then (p, prime_index) else prime_search min_size ps (prime_index + 1))"

definition create_hashtable ::
  "uint_t \<Rightarrow> (addr_t \<Rightarrow> uint_t) \<Rightarrow> (addr_t \<Rightarrow> addr_t \<Rightarrow> bool) \<Rightarrow> bool \<Rightarrow> bool \<Rightarrow> hashtable option" where
  "create_hashtable min_size hash_fn eq_fn htable_ok table_ok =
     (if push_bit 30 1 < min_size then None
      else let (sz, prime_index) = prime_search min_size primes 0
           in if \<not> htable_ok then None
              else if \<not> table_ok then None
              else Some \<lparr>ht_table_length = sz,
                         ht_table = replicate (unat sz) [],
                         ht_entry_count = 0,
                         ht_load_limit = load_limit_for sz,
                         ht_prime_index = prime_index,
                         ht_hash_fn = hash_fn,
                         ht_eq_fn = eq_fn\<rparr>)"

declare excess_bits.simps [simp del]

section \<open>Operations\<close>

text \<open>Moving the chains to the new table, entry by entry from the head of each chain.\<close>

fun rehash_chain :: "uint_t \<Rightarrow> hash_entry list \<Rightarrow> hash_entry list list \<Rightarrow> hash_entry list list" where
  "rehash_chain new_size [] new_table = new_table"
| "rehash_chain new_size (tmp_entry # rest) new_table =
     (let index = unat (indexFor new_size (he_hash tmp_entry))
      in rehash_chain new_size rest (new_table[index := tmp_entry # new_table ! index]))"

fun rehash :: "uint_t \<Rightarrow> hash_entry list list \<Rightarrow> hash_entry list list \<Rightarrow> hash_entry list list" where
  "rehash new_size [] new_table = new_table"
| "rehash new_size (chain # table) new_table =
     rehash new_size table (rehash_chain new_size chain new_table)"

text \<open>
  \<open>hashtable_expand\<close> with the outcome of its allocations. When the first allocation fails and
  the one of \<open>tmp_realloc\<close> succeeds, the code copies \<open>primes[i]\<close> bytes instead of that many
  pointers and then clears memory through the uninitialised slot \<open>new_table[table_length]\<close>:
  no defined behaviour is left, which is the result \<open>None\<close>.
\<close>

definition hashtable_expand :: "hashtable \<Rightarrow> bool \<Rightarrow> bool \<Rightarrow> (int \<times> hashtable) option" where
  "hashtable_expand htable new_table_ok realloc_ok =
     (if ht_prime_index htable = prime_table_length - 1 then Some (0, htable)
      else let prime_index = ht_prime_index htable + 1;
               new_size = primes ! unat prime_index
           in if new_table_ok
              then Some (-1, htable\<lparr>ht_prime_index := prime_index,
                       ht_table := rehash new_size (ht_table htable) (replicate (unat new_size) []),
                       ht_table_length := new_size,
                       ht_load_limit := load_limit_for new_size\<rparr>)
              else if \<not> realloc_ok then Some (0, htable)
              else None)"

definition hashtable_count :: "hashtable \<Rightarrow> uint_t" where
  "hashtable_count htable = ht_entry_count htable"

definition hashtable_insert ::
  "hashtable \<Rightarrow> addr_t \<Rightarrow> addr_t \<Rightarrow> bool \<Rightarrow> bool \<Rightarrow> addr_t option \<Rightarrow> (int \<times> hashtable) option" where
  "hashtable_insert htable key value new_table_ok realloc_ok new_entry =
     (let ht1 = htable\<lparr>ht_entry_count := ht_entry_count htable + 1\<rparr>;
          expanded = (if ht_load_limit ht1 < ht_entry_count ht1
                      then map_option snd (hashtable_expand ht1 new_table_ok realloc_ok)
                      else Some ht1)
      in case expanded of
           None \<Rightarrow> None
         | Some ht2 \<Rightarrow>
             (case new_entry of
                None \<Rightarrow> Some (0, ht2\<lparr>ht_entry_count := ht_entry_count ht2 - 1\<rparr>)
              | Some p \<Rightarrow>
                  let hash = do_hash ht2 key;
                      index = unat (indexFor (ht_table_length ht2) hash);
                      e = \<lparr>he_self = p, he_key = key, he_value = value, he_hash = hash\<rparr>
                  in Some (-1, ht2\<lparr>ht_table := (ht_table ht2)[index := e # ht_table ht2 ! index]\<rparr>)))"

definition entry_matches :: "hashtable \<Rightarrow> uint_t \<Rightarrow> addr_t \<Rightarrow> hash_entry \<Rightarrow> bool" where
  "entry_matches htable hash_value key e \<longleftrightarrow> hash_value = he_hash e \<and> ht_eq_fn htable key (he_key e)"

fun chain_change :: "(hash_entry \<Rightarrow> bool) \<Rightarrow> addr_t \<Rightarrow> hash_entry list \<Rightarrow> (addr_t \<times> hash_entry list) option" where
  "chain_change m value [] = None"
| "chain_change m value (e # es) =
     (if m e then Some (he_value e, e\<lparr>he_value := value\<rparr> # es)
      else map_option (\<lambda>(old, es'). (old, e # es')) (chain_change m value es))"

text \<open>The list is what the call passes to \<open>V3_Free\<close>.\<close>

definition hashtable_change ::
  "hashtable \<Rightarrow> addr_t \<Rightarrow> addr_t \<Rightarrow> bool \<Rightarrow> int \<times> hashtable \<times> addr_t list" where
  "hashtable_change htable key value free_value =
     (let hash_value = do_hash htable key;
          index = unat (indexFor (ht_table_length htable) hash_value)
      in case chain_change (entry_matches htable hash_value key) value (ht_table htable ! index) of
           Some (old, chain) \<Rightarrow>
             (-1, htable\<lparr>ht_table := (ht_table htable)[index := chain]\<rparr>,
              if free_value then [old] else [])
         | None \<Rightarrow> (0, htable, []))"

fun chain_search :: "(hash_entry \<Rightarrow> bool) \<Rightarrow> hash_entry list \<Rightarrow> addr_t" where
  "chain_search m [] = 0"
| "chain_search m (e # es) = (if m e then he_value e else chain_search m es)"

definition hashtable_search :: "hashtable \<Rightarrow> addr_t \<Rightarrow> addr_t" where
  "hashtable_search htable key =
     (let hash_value = do_hash htable key;
          index = unat (indexFor (ht_table_length htable) hash_value)
      in chain_search (entry_matches htable hash_value key) (ht_table htable ! index))"

fun chain_remove :: "(hash_entry \<Rightarrow> bool) \<Rightarrow> hash_entry list \<Rightarrow> (hash_entry \<times> hash_entry list) option" where
  "chain_remove m [] = None"
| "chain_remove m (e # es) =
     (if m e then Some (e, es) else map_option (\<lambda>(r, es'). (r, e # es')) (chain_remove m es))"

definition hashtable_remove ::
  "hashtable \<Rightarrow> addr_t \<Rightarrow> bool \<Rightarrow> addr_t \<times> hashtable \<times> addr_t list" where
  "hashtable_remove htable key free_key =
     (let hash_value = do_hash htable key;
          index = unat (indexFor (ht_table_length htable) hash_value)
      in case chain_remove (entry_matches htable hash_value key) (ht_table htable ! index) of
           Some (r, chain) \<Rightarrow>
             (he_value r,
              htable\<lparr>ht_table := (ht_table htable)[index := chain],
                     ht_entry_count := ht_entry_count htable - 1\<rparr>,
              (if free_key then [he_key r] else []) @ [he_self r])
         | None \<Rightarrow> (0, htable, []))"

text \<open>\<open>hashtable_destroy\<close>: the pointers freed, in order; \<open>table\<close> and \<open>self\<close> are the addresses of
  the bucket array and of the table.\<close>

definition destroy_entry :: "bool \<Rightarrow> bool \<Rightarrow> hash_entry \<Rightarrow> addr_t list" where
  "destroy_entry free_values free_keys e =
     (if free_keys then [he_key e] else []) @ (if free_values then [he_value e] else []) @ [he_self e]"

definition hashtable_destroy :: "hashtable \<Rightarrow> addr_t \<Rightarrow> addr_t \<Rightarrow> bool \<Rightarrow> bool \<Rightarrow> addr_t list" where
  "hashtable_destroy htable table self free_values free_keys =
     concat (map (\<lambda>chain. concat (map (destroy_entry free_values free_keys) chain)) (ht_table htable))
     @ [table, self]"

section \<open>Iterators\<close>

text \<open>
  A pointer into a chain is the part of the chain that starts at the node it points to; the
  null pointer is the empty list. The table an iterator works on is passed along.
\<close>

record hashtable_iter =
  it_entry :: "hash_entry list"
  it_parent :: "hash_entry list"
  it_index :: uint_t

fun first_chain :: "nat \<Rightarrow> hash_entry list list \<Rightarrow> (nat \<times> hash_entry list) option" where
  "first_chain i [] = None"
| "first_chain i (c # cs) = (if c \<noteq> [] then Some (i, c) else first_chain (Suc i) cs)"

definition create_hashtable_iterator :: "hashtable \<Rightarrow> bool \<Rightarrow> hashtable_iter option" where
  "create_hashtable_iterator htable iter_ok =
     (if \<not> iter_ok then None
      else let iter = \<lparr>it_entry = [], it_parent = [], it_index = ht_table_length htable\<rparr>
           in if ht_entry_count htable = 0 then Some iter
              else case first_chain 0 (ht_table htable) of
                     None \<Rightarrow> Some iter
                   | Some (i, c) \<Rightarrow> Some (iter\<lparr>it_entry := c, it_index := of_nat i\<rparr>))"

definition hashtable_get_iter_key :: "hashtable_iter \<Rightarrow> addr_t option" where
  "hashtable_get_iter_key iter = (case it_entry iter of [] \<Rightarrow> None | e # _ \<Rightarrow> Some (he_key e))"

definition hashtable_get_iter_value :: "hashtable_iter \<Rightarrow> addr_t option" where
  "hashtable_get_iter_value iter = (case it_entry iter of [] \<Rightarrow> None | e # _ \<Rightarrow> Some (he_value e))"

definition hashtable_iterator_advance ::
  "hashtable \<Rightarrow> hashtable_iter \<Rightarrow> int \<times> hashtable_iter" where
  "hashtable_iterator_advance htable iter =
     (case it_entry iter of
        [] \<Rightarrow> (0, iter)
      | e # nxt \<Rightarrow>
          if nxt \<noteq> [] then (-1, iter\<lparr>it_parent := it_entry iter, it_entry := nxt\<rparr>)
          else let j = it_index iter + 1;
                   iter1 = iter\<lparr>it_parent := [], it_index := j\<rparr>
               in if ht_table_length htable \<le> j then (0, iter1\<lparr>it_entry := []\<rparr>)
                  else case first_chain (unat j) (drop (unat j) (ht_table htable)) of
                         None \<Rightarrow> (0, iter1\<lparr>it_index := ht_table_length htable, it_entry := []\<rparr>)
                       | Some (i, c) \<Rightarrow> (-1, iter1\<lparr>it_index := of_nat i, it_entry := c\<rparr>))"

text \<open>
  Removal unlinks the current node, then advances from it (its own \<open>next\<close> is intact) and
  repairs \<open>parent\<close> when the advance left the removed node there. The node before the removed
  one has a new \<open>next\<close>, so the pointer to it reaches a different rest of the chain.
\<close>

definition hashtable_iterator_remove ::
  "hashtable \<Rightarrow> hashtable_iter \<Rightarrow> bool \<Rightarrow> (int \<times> hashtable \<times> hashtable_iter \<times> addr_t list) option" where
  "hashtable_iterator_remove htable iter free_key =
     (case it_entry iter of
        [] \<Rightarrow> None
      | e # nxt \<Rightarrow>
          let i = unat (it_index iter);
              chain = ht_table htable ! i;
              chain' = (if it_parent iter = [] then nxt
                        else take (length chain - length (it_parent iter)) chain
                             @ hd (it_parent iter) # nxt);
              ht1 = htable\<lparr>ht_table := (ht_table htable)[i := chain'],
                           ht_entry_count := ht_entry_count htable - 1\<rparr>;
              remember_parent = (if it_parent iter = [] then [] else hd (it_parent iter) # nxt);
              (ret, iter1) = hashtable_iterator_advance ht1 iter;
              iter2 = (if it_parent iter1 = it_entry iter then iter1\<lparr>it_parent := remember_parent\<rparr>
                       else iter1)
          in Some (ret, ht1, iter2, (if free_key then [he_key e] else []) @ [he_self e]))"

fun iter_chain_search ::
  "(hash_entry \<Rightarrow> bool) \<Rightarrow> hash_entry list \<Rightarrow> hash_entry list \<Rightarrow> (hash_entry list \<times> hash_entry list) option" where
  "iter_chain_search m parent [] = None"
| "iter_chain_search m parent (e # es) =
     (if m e then Some (e # es, parent) else iter_chain_search m (e # es) es)"

definition hashtable_iterator_search ::
  "hashtable_iter \<Rightarrow> hashtable \<Rightarrow> addr_t \<Rightarrow> int \<times> hashtable_iter" where
  "hashtable_iterator_search iter htable key =
     (let hash_value = do_hash htable key;
          index = indexFor (ht_table_length htable) hash_value
      in case iter_chain_search (entry_matches htable hash_value key) []
                (ht_table htable ! unat index) of
           Some (entry, parent) \<Rightarrow>
             (-1, iter\<lparr>it_index := index, it_entry := entry, it_parent := parent\<rparr>)
         | None \<Rightarrow> (0, iter))"

section \<open>Hash functions: correctness\<close>

lemma push_bit_word_mult: "push_bit n w = w * 2 ^ n" for w :: "'a::len word"
  by (simp add: push_bit_eq_mult)

lemma hash_long_golden:
  "hash_long val bits = drop_bit (64 - unat bits) (val * GOLDEN_RATIO_PRIME)"
proof -
  have "val * GOLDEN_RATIO_PRIME =
      val - val * 2 ^ 18 - val * 2 ^ 51 + val * 2 ^ 54 - val * 2 ^ 57 + val * 2 ^ 61 + val * 2 ^ 63"
    by (simp add: GOLDEN_RATIO_PRIME_def algebra_simps)
  then show ?thesis
    by (simp add: hash_long_def Let_def push_bit_eq_mult algebra_simps)
qed

lemma hash_long_bound:
  assumes "unat bits \<le> 64"
  shows "unat (hash_long val bits) < 2 ^ unat bits"
proof -
  have "unat (hash_long val bits) = unat (val * GOLDEN_RATIO_PRIME) div 2 ^ (64 - unat bits)"
    by (simp only: hash_long_golden unat_drop_bit_eq) (simp add: drop_bit_eq_div)
  moreover have "unat (val * GOLDEN_RATIO_PRIME) < 2 ^ unat bits * 2 ^ (64 - unat bits)"
    using assms unsigned_less[of "val * GOLDEN_RATIO_PRIME"]
    by (simp flip: power_add)
  ultimately show ?thesis by (simp add: less_mult_imp_div_less)
qed


section \<open>Invariant and abstraction\<close>

definition ht_entries :: "hashtable \<Rightarrow> hash_entry list" where
  "ht_entries ht = concat (ht_table ht)"

definition placed :: "uint_t \<Rightarrow> hash_entry list list \<Rightarrow> bool" where
  "placed n T \<longleftrightarrow> (\<forall>i < length T. \<forall>e \<in> set (T ! i). unat (indexFor n (he_hash e)) = i)"

definition ht_inv :: "hashtable \<Rightarrow> bool" where
  "ht_inv ht \<longleftrightarrow>
     0 < ht_table_length ht \<and> length (ht_table ht) = unat (ht_table_length ht)
   \<and> unat (ht_prime_index ht) < length primes
   \<and> primes ! unat (ht_prime_index ht) = ht_table_length ht
   \<and> placed (ht_table_length ht) (ht_table ht)
   \<and> (\<forall>e \<in> set (ht_entries ht). he_hash e = do_hash ht (he_key e))
   \<and> ht_entry_count ht = of_nat (length (ht_entries ht))
   \<and> ht_eq_fn ht = (=)"

definition ht_content :: "hashtable \<Rightarrow> (addr_t \<times> addr_t) multiset" where
  "ht_content ht = mset (map (\<lambda>e. (he_key e, he_value e)) (ht_entries ht))"

definition ht_map :: "hashtable \<Rightarrow> addr_t \<rightharpoonup> addr_t" where
  "ht_map ht = map_of (map (\<lambda>e. (he_key e, he_value e)) (ht_entries ht))"

definition ht_distinct :: "hashtable \<Rightarrow> bool" where
  "ht_distinct ht \<longleftrightarrow> distinct (map he_key (ht_entries ht))"

lemma do_hash_cong: "ht_hash_fn a = ht_hash_fn b \<Longrightarrow> do_hash a k = do_hash b k"
  by (simp add: do_hash_def)

lemma do_hash_updates [simp]:
  "do_hash (ht\<lparr>ht_table := t\<rparr>) k = do_hash ht k"
  "do_hash (ht\<lparr>ht_entry_count := c\<rparr>) k = do_hash ht k"
  "do_hash (ht\<lparr>ht_table_length := l\<rparr>) k = do_hash ht k"
  "do_hash (ht\<lparr>ht_load_limit := l\<rparr>) k = do_hash ht k"
  "do_hash (ht\<lparr>ht_prime_index := p\<rparr>) k = do_hash ht k"
  by (simp_all add: do_hash_def)

lemma indexFor_less: "0 < n \<Longrightarrow> unat (indexFor n h) < unat n"
  by (simp add: indexFor_def unat_mod word_gt_0_no unat_gt_0)

lemma mset_concat_update:
  "i < length T \<Longrightarrow> mset (concat (T[i := c])) + mset (T ! i) = mset (concat T) + mset c"
proof (induction T arbitrary: i)
  case (Cons t T)
  then show ?case by (cases i) (auto simp: ac_simps)
qed simp

lemma mset_concat_push:
  assumes "i < length T"
  shows "mset (concat (T[i := e # T ! i])) = add_mset e (mset (concat T))"
proof -
  have "mset (concat (T[i := e # T ! i])) + mset (T ! i) = add_mset e (mset (concat T)) + mset (T ! i)"
    using mset_concat_update[OF assms, of "e # T ! i"] by simp
  then show ?thesis by (rule add_right_imp_eq)
qed

lemma placed_push:
  assumes "placed n T" "unat (indexFor n (he_hash e)) = i"
  shows "placed n (T[i := e # T ! i])"
  unfolding placed_def
proof (intro allI impI ballI)
  fix j x assume j: "j < length (T[i := e # T ! i])" and x: "x \<in> set (T[i := e # T ! i] ! j)"
  show "unat (indexFor n (he_hash x)) = j"
    using assms j x by (cases "j = i") (auto simp: placed_def)
qed

lemma rehash_chain_props:
  assumes "0 < n" "length nt = unat n" "placed n nt"
  shows "length (rehash_chain n c nt) = unat n \<and> placed n (rehash_chain n c nt)
    \<and> mset (concat (rehash_chain n c nt)) = mset c + mset (concat nt)"
  using assms(2,3)
proof (induction c arbitrary: nt)
  case (Cons e c)
  let ?i = "unat (indexFor n (he_hash e))"
  let ?nt = "nt[?i := e # nt ! ?i]"
  have i: "?i < length nt" using Cons.prems assms(1) by (simp add: indexFor_less)
  have "length ?nt = unat n" "placed n ?nt" using Cons.prems by (auto intro: placed_push)
  from Cons.IH[OF this] mset_concat_push[OF i] show ?case by (simp add: Let_def)
qed simp

lemma rehash_props:
  assumes "0 < n" "length nt = unat n" "placed n nt"
  shows "length (rehash n T nt) = unat n" "placed n (rehash n T nt)"
    "mset (concat (rehash n T nt)) = mset (concat T) + mset (concat nt)"
  using assms
  by (induction T arbitrary: nt) (simp_all add: rehash_chain_props ac_simps)

lemma placed_empty: "placed n (replicate m [])"
  by (simp add: placed_def)

lemma primes_pos: "i < length primes \<Longrightarrow> 0 < primes ! i"
proof -
  have "\<forall>p \<in> set primes. 0 < p" by (simp add: primes_def)
  then show "i < length primes \<Longrightarrow> 0 < primes ! i" by simp
qed

lemma length_primes: "length primes = 26"
  by (simp add: primes_def)

section \<open>Operations keep the invariant\<close>

lemma prime_search_found:
  assumes "\<exists>p \<in> set ps. m < p"
  shows "\<exists>k < length ps. prime_search m ps i = (ps ! k, i + of_nat k) \<and> m < ps ! k"
  using assms
proof (induction ps arbitrary: i)
  case (Cons p ps)
  show ?case
  proof (cases "m < p")
    case False
    with Cons.prems have "\<exists>p \<in> set ps. m < p" by auto
    from Cons.IH[OF this, of "i + 1"] obtain k where
      "k < length ps" "prime_search m ps (i + 1) = (ps ! k, i + 1 + of_nat k)" "m < ps ! k" by auto
    with False show ?thesis by (intro exI[of _ "Suc k"]) (simp add: algebra_simps)
  qed (intro exI[of _ 0], simp)
qed simp

lemma create_search:
  assumes "\<not> push_bit 30 1 < min_size"
  shows "\<exists>k < length primes. prime_search min_size primes 0 = (primes ! k, of_nat k) \<and> min_size < primes ! k"
proof -
  have "min_size \<le> 1073741824" using assms by (simp add: not_less)
  moreover have "(1073741824 :: uint_t) < 1610612741" by simp
  ultimately have "min_size < 1610612741" by (rule le_less_trans)
  then have "\<exists>p \<in> set primes. min_size < p" by (auto simp: primes_def)
  from prime_search_found[OF this, of 0] show ?thesis by auto
qed

lemma ht_inv_create:
  assumes "create_hashtable min_size hash_fn (=) a b = Some ht"
  shows "ht_inv ht" "ht_entries ht = []" "min_size < ht_table_length ht" "ht_hash_fn ht = hash_fn"
proof -
  from assms have "\<not> push_bit 30 1 < min_size"
    by (auto simp: create_hashtable_def split: if_splits)
  from create_search[OF this] obtain k where k: "k < 26"
    "prime_search min_size primes 0 = (primes ! k, of_nat k)" "min_size < primes ! k"
    by (auto simp: length_primes)
  have "unat (of_nat k :: uint_t) = k" using k(1) by (simp add: unat_of_nat)
  with assms k primes_pos[of k] show "ht_inv ht" "ht_entries ht = []" "min_size < ht_table_length ht"
    "ht_hash_fn ht = hash_fn"
    by (auto simp: create_hashtable_def ht_inv_def ht_entries_def placed_empty length_primes
        split: if_splits)
qed

lemma unat_Suc_less: "unat x < m \<Longrightarrow> m < 2 ^ 32 \<Longrightarrow> unat (x + 1) = unat x + 1" for x :: uint_t
  by (simp add: unat_word_ariths)

lemma hashtable_expand_props:
  assumes inv: "ht_inv (ht\<lparr>ht_entry_count := c\<rparr>)"
    and ex: "hashtable_expand ht a b = Some (r, ht')"
  shows "ht_inv (ht'\<lparr>ht_entry_count := c\<rparr>)" "mset (ht_entries ht') = mset (ht_entries ht)"
    "ht_entry_count ht' = ht_entry_count ht" "ht_hash_fn ht' = ht_hash_fn ht" "ht_eq_fn ht' = ht_eq_fn ht"
proof -
  have "ht_inv (ht'\<lparr>ht_entry_count := c\<rparr>) \<and> mset (ht_entries ht') = mset (ht_entries ht)
    \<and> ht_entry_count ht' = ht_entry_count ht \<and> ht_hash_fn ht' = ht_hash_fn ht
    \<and> ht_eq_fn ht' = ht_eq_fn ht"
  proof (cases "ht_prime_index ht = prime_table_length - 1 \<or> \<not> a")
    case True
    then have "ht' = ht" using ex by (auto simp: hashtable_expand_def Let_def split: if_splits)
    with inv show ?thesis by simp
  next
    case False
    let ?p = "ht_prime_index ht + 1"
    let ?n = "primes ! unat ?p"
    let ?T = "rehash ?n (ht_table ht) (replicate (unat ?n) [])"
    have lt: "unat (ht_prime_index ht) < 26" using inv by (simp add: ht_inv_def length_primes)
    have "unat (ht_prime_index ht) \<noteq> 25"
    proof
      assume "unat (ht_prime_index ht) = 25"
      then have "ht_prime_index ht = 25" by (simp add: word_unat_eq_iff)
      with False show False by (simp add: prime_table_length_def)
    qed
    with lt have p: "unat ?p < length primes"
      using unat_Suc_less[OF lt] by (simp add: length_primes)
    then have n: "0 < ?n" by (rule primes_pos)
    note T = rehash_props[OF n, of "replicate (unat ?n) []" "ht_table ht", OF _ placed_empty]
    have ht': "ht' = ht\<lparr>ht_prime_index := ?p, ht_table := ?T, ht_table_length := ?n,
        ht_load_limit := load_limit_for ?n\<rparr>"
      using ex False by (auto simp: hashtable_expand_def Let_def split: if_splits)
    have m: "mset (concat ?T) = mset (concat (ht_table ht))" using T(3) by simp
    then have "set (concat ?T) = set (concat (ht_table ht))" "length (concat ?T) = length (concat (ht_table ht))"
      by (metis set_mset_mset, metis size_mset)
    with inv p n T(1,2) m show ?thesis
      by (simp add: ht_inv_def ht_entries_def ht')
  qed
  then show "ht_inv (ht'\<lparr>ht_entry_count := c\<rparr>)" "mset (ht_entries ht') = mset (ht_entries ht)"
    "ht_entry_count ht' = ht_entry_count ht" "ht_hash_fn ht' = ht_hash_fn ht" "ht_eq_fn ht' = ht_eq_fn ht"
    by simp_all
qed

lemma ht_inv_push:
  assumes inv: "ht_inv (ht\<lparr>ht_entry_count := c\<rparr>)"
    and e: "he_hash e = do_hash ht (he_key e)"
    and i: "i = unat (indexFor (ht_table_length ht) (he_hash e))"
    and c: "ht_entry_count ht = c + 1"
  shows "ht_inv (ht\<lparr>ht_table := (ht_table ht)[i := e # ht_table ht ! i]\<rparr>)"
    and "mset (ht_entries (ht\<lparr>ht_table := (ht_table ht)[i := e # ht_table ht ! i]\<rparr>))
         = add_mset e (mset (ht_entries ht))"
proof -
  let ?T = "(ht_table ht)[i := e # ht_table ht ! i]"
  have il: "i < length (ht_table ht)" using inv i by (simp add: ht_inv_def indexFor_less)
  note m = mset_concat_push[OF il, of e]
  then show "mset (ht_entries (ht\<lparr>ht_table := ?T\<rparr>)) = add_mset e (mset (ht_entries ht))"
    by (simp add: ht_entries_def)
  from m have "set (concat ?T) = insert e (set (concat (ht_table ht)))"
    "length (concat ?T) = Suc (length (concat (ht_table ht)))"
    by (metis set_mset_mset set_mset_add_mset_insert, metis size_mset size_add_mset)
  with inv e c show "ht_inv (ht\<lparr>ht_table := ?T\<rparr>)"
    using placed_push[of "ht_table_length ht" "ht_table ht" e i] i
    by (simp add: ht_inv_def ht_entries_def)
qed

text \<open>
  Insertion on every path that has a defined outcome: the entry is added (whether or not the
  table was expanded first), or, when the entry cannot be allocated, the content is unchanged.
\<close>

lemma hashtable_insert_cases:
  assumes inv: "ht_inv ht"
    and ins: "hashtable_insert ht key value a b new_entry = Some (r, ht')"
  shows "ht_inv ht'" and "ht_hash_fn ht' = ht_hash_fn ht"
    and "case new_entry of
           None \<Rightarrow> r = 0 \<and> mset (ht_entries ht') = mset (ht_entries ht)
         | Some p \<Rightarrow> r = -1 \<and> mset (ht_entries ht') =
             add_mset \<lparr>he_self = p, he_key = key, he_value = value, he_hash = do_hash ht key\<rparr>
               (mset (ht_entries ht))"
proof -
  let ?ht1 = "ht\<lparr>ht_entry_count := ht_entry_count ht + 1\<rparr>"
  let ?c = "ht_entry_count ht"
  from ins obtain ht2 where
    ht2: "ht2 = ?ht1 \<or> (\<exists>r0. hashtable_expand ?ht1 a b = Some (r0, ht2))"
    and ht': "case new_entry of
        None \<Rightarrow> r = 0 \<and> ht' = ht2\<lparr>ht_entry_count := ht_entry_count ht2 - 1\<rparr>
      | Some p \<Rightarrow> r = -1 \<and> (let hash = do_hash ht2 key;
                      index = unat (indexFor (ht_table_length ht2) hash);
                      e = \<lparr>he_self = p, he_key = key, he_value = value, he_hash = hash\<rparr>
                  in ht' = ht2\<lparr>ht_table := (ht_table ht2)[index := e # ht_table ht2 ! index]\<rparr>)"
    by (auto simp: hashtable_insert_def Let_def split: option.splits if_splits)
  have inv1: "ht_inv (?ht1\<lparr>ht_entry_count := ?c\<rparr>)" using inv by simp
  have P: "ht_inv (ht2\<lparr>ht_entry_count := ?c\<rparr>)" "mset (ht_entries ht2) = mset (ht_entries ht)"
    "ht_entry_count ht2 = ?c + 1" "ht_hash_fn ht2 = ht_hash_fn ht"
    using ht2 inv hashtable_expand_props[OF inv1] by (auto simp: ht_entries_def)
  have dh: "do_hash ht2 k = do_hash ht k" for k by (rule do_hash_cong) (rule P(4))
  have "ht_inv ht' \<and> ht_hash_fn ht' = ht_hash_fn ht \<and> (case new_entry of
           None \<Rightarrow> r = 0 \<and> mset (ht_entries ht') = mset (ht_entries ht)
         | Some p \<Rightarrow> r = -1 \<and> mset (ht_entries ht') =
             add_mset \<lparr>he_self = p, he_key = key, he_value = value, he_hash = do_hash ht key\<rparr>
               (mset (ht_entries ht)))"
  proof (cases new_entry)
    case None
    with ht' P show ?thesis by (simp add: ht_entries_def)
  next
    case (Some p)
    let ?e = "\<lparr>he_self = p, he_key = key, he_value = value, he_hash = do_hash ht2 key\<rparr>"
    note push = ht_inv_push[OF P(1), of ?e, OF _ refl P(3)]
    from Some ht' P push dh show ?thesis by (simp add: Let_def)
  qed
  then show "ht_inv ht'" "ht_hash_fn ht' = ht_hash_fn ht"
    "case new_entry of
           None \<Rightarrow> r = 0 \<and> mset (ht_entries ht') = mset (ht_entries ht)
         | Some p \<Rightarrow> r = -1 \<and> mset (ht_entries ht') =
             add_mset \<lparr>he_self = p, he_key = key, he_value = value, he_hash = do_hash ht key\<rparr>
               (mset (ht_entries ht))" by simp_all
qed

section \<open>Lookup\<close>

lemma find_None_conv: "find P xs = None \<longleftrightarrow> (\<forall>x \<in> set xs. \<not> P x)"
  by (induction xs) auto

lemma find_concat_only:
  assumes "i < length T" "\<And>j e. j < length T \<Longrightarrow> j \<noteq> i \<Longrightarrow> e \<in> set (T ! j) \<Longrightarrow> \<not> P e"
  shows "find P (concat T) = find P (T ! i)"
proof -
  have app: "find P (xs @ ys) = (case find P xs of None \<Rightarrow> find P ys | Some x \<Rightarrow> Some x)" for xs ys
    by (induction xs) auto
  have split: "concat T = concat (take i T) @ T ! i @ concat (drop (Suc i) T)"
    using assms(1) by (metis append_take_drop_id concat.simps(2) concat_append Cons_nth_drop_Suc)
  have "\<not> P e" if "c \<in> set (take i T)" "e \<in> set c" for c e
  proof -
    from that(1) assms(1) obtain j where "j < i" "c = T ! j" by (auto simp: in_set_conv_nth)
    with assms(1) assms(2)[of j e] that(2) show ?thesis by auto
  qed
  then have "find P (concat (take i T)) = None" by (auto simp: find_None_conv)
  moreover have "\<not> P e" if "c \<in> set (drop (Suc i) T)" "e \<in> set c" for c e
  proof -
    from that(1) obtain j where "j < length T - Suc i" "c = T ! (Suc i + j)"
      by (auto simp: in_set_conv_nth)
    with assms(2)[of "Suc i + j" e] that(2) show ?thesis by auto
  qed
  then have "find P (concat (drop (Suc i) T)) = None" by (auto simp: find_None_conv)
  ultimately show ?thesis by (simp add: split app split: option.splits)
qed

lemma map_of_entries:
  "map_of (map (\<lambda>e. (he_key e, he_value e)) es) k = map_option he_value (find (\<lambda>e. he_key e = k) es)"
  by (induction es) auto

lemma chain_search_find:
  "chain_search m es = (case find m es of None \<Rightarrow> 0 | Some e \<Rightarrow> he_value e)"
  by (induction es) auto

definition ht_bucket :: "hashtable \<Rightarrow> addr_t \<Rightarrow> nat" where
  "ht_bucket ht k = unat (indexFor (ht_table_length ht) (do_hash ht k))"

lemma ht_bucket_less: "ht_inv ht \<Longrightarrow> ht_bucket ht k < length (ht_table ht)"
  by (simp add: ht_inv_def ht_bucket_def indexFor_less)

lemma ht_entry_bucket:
  assumes "ht_inv ht" "j < length (ht_table ht)" "e \<in> set (ht_table ht ! j)"
  shows "ht_bucket ht (he_key e) = j" "he_hash e = do_hash ht (he_key e)"
proof -
  have "e \<in> set (ht_entries ht)" using assms(2,3) by (auto simp: ht_entries_def)
  with assms(1) show h: "he_hash e = do_hash ht (he_key e)" by (simp add: ht_inv_def)
  from assms have "unat (indexFor (ht_table_length ht) (he_hash e)) = j"
    by (auto simp: ht_inv_def placed_def)
  with h show "ht_bucket ht (he_key e) = j" by (simp add: ht_bucket_def)
qed

lemma entry_matches_key:
  assumes "ht_inv ht" "e \<in> set (ht_table ht ! ht_bucket ht k)"
  shows "entry_matches ht (do_hash ht k) k e \<longleftrightarrow> he_key e = k"
  using assms ht_entry_bucket[OF assms(1) ht_bucket_less[OF assms(1), of k] assms(2)]
  by (auto simp: entry_matches_def ht_inv_def)

lemma find_bucket:
  assumes "ht_inv ht"
  shows "find (\<lambda>e. he_key e = k) (ht_entries ht)
       = find (entry_matches ht (do_hash ht k) k) (ht_table ht ! ht_bucket ht k)"
proof -
  have "find (\<lambda>e. he_key e = k) (ht_entries ht) = find (\<lambda>e. he_key e = k) (ht_table ht ! ht_bucket ht k)"
    unfolding ht_entries_def
    by (rule find_concat_only) (use assms ht_entry_bucket in \<open>auto simp: ht_bucket_less\<close>)
  also have "\<dots> = find (entry_matches ht (do_hash ht k) k) (ht_table ht ! ht_bucket ht k)"
    by (rule find_cong) (use assms in \<open>auto simp: entry_matches_key\<close>)
  finally show ?thesis .
qed

lemma hashtable_search_map:
  assumes "ht_inv ht"
  shows "hashtable_search ht k = (case ht_map ht k of None \<Rightarrow> 0 | Some v \<Rightarrow> v)"
  by (simp add: hashtable_search_def Let_def chain_search_find ht_map_def map_of_entries
      find_bucket[OF assms] ht_bucket_def[symmetric] split: option.splits)

lemma chain_remove_find:
  "chain_remove m es = (case find m es of None \<Rightarrow> None | Some e \<Rightarrow> Some (e, remove1 e es))"
  by (induction es) (auto split: option.splits dest: find_Some_iff[THEN iffD1])

lemma find_SomeD: "find P xs = Some x \<Longrightarrow> x \<in> set xs \<and> P x"
  by (induction xs) (auto split: if_splits)

text \<open>Removal takes out the entry that a lookup finds, and nothing else.\<close>

lemma hashtable_remove_find:
  assumes inv: "ht_inv ht"
  shows "case find (\<lambda>e. he_key e = k) (ht_entries ht) of
      None \<Rightarrow> hashtable_remove ht k fk = (0, ht, [])
    | Some e \<Rightarrow> \<exists>ht'. hashtable_remove ht k fk
          = (he_value e, ht', (if fk then [he_key e] else []) @ [he_self e])
        \<and> ht_inv ht' \<and> add_mset e (mset (ht_entries ht')) = mset (ht_entries ht)
        \<and> ht_hash_fn ht' = ht_hash_fn ht"
proof (cases "find (\<lambda>e. he_key e = k) (ht_entries ht)")
  case None
  then show ?thesis
    by (simp add: hashtable_remove_def chain_remove_find Let_def find_bucket[OF inv]
        ht_bucket_def[symmetric])
next
  case (Some e)
  let ?i = "ht_bucket ht k" and ?T = "ht_table ht"
  let ?T' = "?T[?i := remove1 e (?T ! ?i)]"
  have f: "find (entry_matches ht (do_hash ht k) k) (?T ! ?i) = Some e"
    using Some by (simp add: find_bucket[OF inv])
  then have e: "e \<in> set (?T ! ?i)" by (auto dest: find_SomeD)
  have il: "?i < length ?T" by (rule ht_bucket_less[OF inv])
  have m: "add_mset e (mset (concat ?T')) = mset (concat ?T)"
  proof -
    let ?D = "mset (remove1 e (?T ! ?i))"
    have "mset (?T ! ?i) = add_mset e ?D" using e by (simp add: insert_DiffM)
    with mset_concat_update[OF il, of "remove1 e (?T ! ?i)"]
    have "mset (concat ?T') + add_mset e ?D = mset (concat ?T) + ?D" by (simp only:)
    then have "add_mset e (mset (concat ?T')) + ?D = mset (concat ?T) + ?D"
      by (simp only: union_mset_add_mset_left union_mset_add_mset_right)
    then show ?thesis by (rule add_right_imp_eq)
  qed
  let ?ht' = "ht\<lparr>ht_table := ?T', ht_entry_count := ht_entry_count ht - 1\<rparr>"
  have "insert e (set_mset (mset (concat ?T'))) = set_mset (mset (concat ?T))"
    using arg_cong[OF m, of set_mset] by (simp only: set_mset_add_mset_insert)
  then have sub: "set (concat ?T') \<subseteq> set (concat ?T)" by (simp only: set_mset_mset) blast
  have "Suc (size (mset (concat ?T'))) = size (mset (concat ?T))"
    using arg_cong[OF m, of size] by (simp only: size_add_mset)
  then have len: "Suc (length (concat ?T')) = length (concat ?T)" by (simp only: size_mset)
  have cnt: "ht_entry_count ht - 1 = of_nat (length (concat ?T'))"
  proof -
    have "ht_entry_count ht = of_nat (Suc (length (concat ?T')))"
      using inv len by (simp only: ht_inv_def ht_entries_def)
    then show ?thesis by simp
  qed
  have "placed (ht_table_length ht) ?T'"
    unfolding placed_def
  proof (intro allI impI ballI)
    fix j x assume "j < length ?T'" "x \<in> set (?T' ! j)"
    then have "j < length ?T \<and> x \<in> set (?T ! j)"
      by (cases "j = ?i") (auto dest: subsetD[OF set_remove1_subset])
    then show "unat (indexFor (ht_table_length ht) (he_hash x)) = j"
      using inv by (auto simp: ht_inv_def placed_def)
  qed
  with inv sub cnt have "ht_inv ?ht'"
    by (auto simp: ht_inv_def ht_entries_def)
  moreover have "hashtable_remove ht k fk = (he_value e, ?ht', (if fk then [he_key e] else []) @ [he_self e])"
    by (simp add: hashtable_remove_def chain_remove_find Let_def f ht_bucket_def[symmetric])
  ultimately show ?thesis using Some m by (auto simp: ht_entries_def)
qed


lemma chain_change_find:
  "chain_change m v es = (case find m es of None \<Rightarrow> None
     | Some e \<Rightarrow> Some (he_value e, list_update es (length (takeWhile (\<lambda>x. \<not> m x) es)) (e\<lparr>he_value := v\<rparr>)))"
  by (induction es) (auto split: option.splits)

lemma find_takeWhile:
  "find m es = Some e \<Longrightarrow> length (takeWhile (\<lambda>x. \<not> m x) es) < length es
     \<and> es ! length (takeWhile (\<lambda>x. \<not> m x) es) = e"
  by (induction es) (auto split: if_splits)

section \<open>The contract of a pointer table\<close>

text \<open>
  What the monitor relies on when it caches addresses: a stored key is found again, a key
  that was never stored gives the null pointer. An insertion has an allocation outcome \<open>a\<close>;
  \<open>good a\<close> says that its allocations succeeded. Keys may be inserted twice, so the content
  is a multiset.
\<close>

locale key_table =
  fixes ins :: "'a \<Rightarrow> 'k \<Rightarrow> 'v \<Rightarrow> 't \<Rightarrow> 't option"
    and lookup :: "'t \<Rightarrow> 'k \<Rightarrow> 'v"
    and content :: "'t \<Rightarrow> ('k \<times> 'v) multiset"
    and invar :: "'t \<Rightarrow> bool"
    and good :: "'a \<Rightarrow> bool"
    and null :: 'v
  assumes ins_good: "invar t \<Longrightarrow> good a \<Longrightarrow>
      \<exists>t'. ins a k v t = Some t' \<and> invar t' \<and> content t' = add_mset (k, v) (content t)"
    and lookup_in: "invar t \<Longrightarrow> (k, v) \<in># content t \<Longrightarrow> (k, lookup t k) \<in># content t"
    and lookup_out: "invar t \<Longrightarrow> (\<And>v. (k, v) \<notin># content t) \<Longrightarrow> lookup t k = null"
begin

fun ins_all :: "('a \<times> 'k \<times> 'v) list \<Rightarrow> 't \<Rightarrow> 't option" where
  "ins_all [] t = Some t"
| "ins_all ((a, k, v) # xs) t = Option.bind (ins a k v t) (ins_all xs)"

lemma ins_all_content:
  assumes "invar t" "\<And>a kv. (a, kv) \<in> set xs \<Longrightarrow> good a"
  shows "\<exists>t'. ins_all xs t = Some t' \<and> invar t' \<and> content t' = mset (map snd xs) + content t"
  using assms
proof (induction xs arbitrary: t)
  case (Cons x xs)
  obtain a k v where x: "x = (a, k, v)" by (cases x)
  with Cons.prems ins_good[of t a k v] obtain t1 where
    t1: "ins a k v t = Some t1" "invar t1" "content t1 = add_mset (k, v) (content t)" by auto
  from Cons.IH[OF t1(2)] Cons.prems(2) obtain t' where
    "ins_all xs t1 = Some t'" "invar t'" "content t' = mset (map snd xs) + content t1" by auto
  with x t1 show ?case by auto
qed simp

lemma lookup_null_iff:
  assumes "invar t" "\<And>k v. (k, v) \<in># content t \<Longrightarrow> v \<noteq> null"
  shows "lookup t k \<noteq> null \<longleftrightarrow> (\<exists>v. (k, v) \<in># content t)"
  using assms lookup_in[OF assms(1)] lookup_out[OF assms(1), of k] by blast

end

text \<open>The model's table under this contract: the allocation outcome of one insertion is whether the
  two tables of an expansion and the entry could be allocated.\<close>

type_synonym alloc_outcome = "bool \<times> bool \<times> addr_t option"

definition good_alloc :: "alloc_outcome \<Rightarrow> bool" where
  "good_alloc a \<longleftrightarrow> fst a \<and> snd (snd a) \<noteq> None"

definition table_insert :: "alloc_outcome \<Rightarrow> addr_t \<Rightarrow> addr_t \<Rightarrow> hashtable \<Rightarrow> hashtable option" where
  "table_insert a key value ht =
     (case a of (t, r, e) \<Rightarrow> map_option snd (hashtable_insert ht key value t r e))"

lemma hashtable_insert_defined:
  "hashtable_insert ht key value True b (Some p) \<noteq> None"
  by (auto simp: hashtable_insert_def hashtable_expand_def Let_def split: option.splits)

lemma ht_content_insert:
  assumes "ht_inv ht" "good_alloc a"
  shows "\<exists>ht'. table_insert a k v ht = Some ht' \<and> ht_inv ht'
           \<and> ht_content ht' = add_mset (k, v) (ht_content ht)"
proof -
  obtain t r e where a: "a = (t, r, e)" by (cases a)
  with assms(2) obtain p where p: "t = True" "e = Some p" by (auto simp: good_alloc_def)
  then obtain rc ht' where ins: "hashtable_insert ht k v t r e = Some (rc, ht')"
    using hashtable_insert_defined[of ht k v r p] by auto
  let ?e = "\<lparr>he_self = p, he_key = k, he_value = v, he_hash = do_hash ht k\<rparr>"
  have "ht_inv ht'" "mset (ht_entries ht') = add_mset ?e (mset (ht_entries ht))"
    using hashtable_insert_cases[OF assms(1) ins] p by simp_all
  then show ?thesis using a ins by (simp add: table_insert_def ht_content_def)
qed

lemma in_ht_content: "(k, v) \<in># ht_content ht \<longleftrightarrow> (\<exists>e \<in> set (ht_entries ht). he_key e = k \<and> he_value e = v)"
  by (auto simp: ht_content_def)

lemma hashtable_search_find:
  assumes "ht_inv ht"
  shows "hashtable_search ht k =
    (case find (\<lambda>e. he_key e = k) (ht_entries ht) of None \<Rightarrow> 0 | Some e \<Rightarrow> he_value e)"
  by (simp add: hashtable_search_map[OF assms] ht_map_def map_of_entries split: option.splits)

interpretation v3ht: key_table table_insert hashtable_search ht_content ht_inv good_alloc 0
proof
  fix t a k v assume "ht_inv t" "good_alloc a"
  then show "\<exists>t'. table_insert a k v t = Some t' \<and> ht_inv t' \<and> ht_content t' = add_mset (k, v) (ht_content t)"
    by (rule ht_content_insert)
next
  fix t k v assume "ht_inv t" "(k, v) \<in># ht_content t"
  then show "(k, hashtable_search t k) \<in># ht_content t"
    by (cases "find (\<lambda>e. he_key e = k) (ht_entries t)")
      (auto simp: in_ht_content hashtable_search_find find_None_conv dest!: find_SomeD)
next
  fix t k assume "ht_inv t" "\<And>v. (k, v) \<notin># ht_content t"
  then show "hashtable_search t k = 0"
    by (cases "find (\<lambda>e. he_key e = k) (ht_entries t)")
      (auto simp: in_ht_content hashtable_search_find dest!: find_SomeD)
qed


section \<open>Iterators: correctness\<close>

text \<open>An iterator stands at a node of the chain of its bucket (with the node before it as the parent)
  or past the last bucket; what it still has to visit is the rest of that chain and the later ones.\<close>

definition it_valid :: "hashtable \<Rightarrow> hashtable_iter \<Rightarrow> bool" where
  "it_valid ht it \<longleftrightarrow>
     (if it_entry it = [] then ht_table_length ht \<le> it_index it
      else it_index it < ht_table_length ht
         \<and> (\<exists>pre. ht_table ht ! unat (it_index it) = pre @ it_entry it
               \<and> it_parent it = (if pre = [] then [] else last pre # it_entry it)))"

definition it_rem :: "hashtable \<Rightarrow> hashtable_iter \<Rightarrow> hash_entry list" where
  "it_rem ht it = it_entry it @ concat (drop (Suc (unat (it_index it))) (ht_table ht))"

text \<open>The loop of a client: visit, advance, until the advance reports the end.\<close>

fun iterate_from :: "nat \<Rightarrow> hashtable \<Rightarrow> hashtable_iter \<Rightarrow> hash_entry list" where
  "iterate_from 0 ht it = []"
| "iterate_from (Suc n) ht it =
     (case it_entry it of
        [] \<Rightarrow> []
      | e # _ \<Rightarrow> (case hashtable_iterator_advance ht it of
                   (ret, it') \<Rightarrow> e # (if ret = 0 then [] else iterate_from n ht it')))"

lemma first_chain_None: "first_chain i cs = None \<Longrightarrow> concat cs = []"
  by (induction cs arbitrary: i) (auto split: if_splits)

lemma first_chain_Some:
  "first_chain i cs = Some (j, c) \<Longrightarrow> i \<le> j \<and> j < i + length cs \<and> c \<noteq> [] \<and> cs ! (j - i) = c
     \<and> concat cs = c @ concat (drop (Suc (j - i)) cs)"
proof (induction cs arbitrary: i)
  case (Cons a cs)
  show ?case
  proof (cases "a = []")
    case True
    with Cons.prems have "first_chain (Suc i) cs = Some (j, c)" by simp
    from Cons.IH[OF this] obtain d where "j = Suc i + d" by (auto dest: le_Suc_ex)
    with Cons.IH[OF \<open>first_chain (Suc i) cs = Some (j, c)\<close>] True show ?thesis
      by (auto simp: Suc_diff_le)
  qed (use Cons.prems in auto)
qed simp

lemma it_rem_end:
  assumes "ht_inv ht" "it_valid ht it" "it_entry it = []"
  shows "it_rem ht it = []"
  using assms by (auto simp: it_rem_def it_valid_def ht_inv_def word_le_nat_alt)

lemma it_at_chain:
  assumes "ht_inv ht" and f: "first_chain (unat j) (drop (unat j) (ht_table ht)) = Some (i, c)"
  shows "it_valid ht (it\<lparr>it_parent := [], it_index := of_nat i, it_entry := c\<rparr>)"
    and "it_rem ht (it\<lparr>it_parent := [], it_index := of_nat i, it_entry := c\<rparr>)
         = concat (drop (unat j) (ht_table ht))"
proof -
  have len: "length (ht_table ht) = unat (ht_table_length ht)" using assms(1) by (simp add: ht_inv_def)
  from first_chain_Some[OF f] have i: "unat j \<le> i" "i < unat (ht_table_length ht)" "c \<noteq> []"
    "ht_table ht ! i = c"
    "concat (drop (unat j) (ht_table ht)) = c @ concat (drop (Suc i) (ht_table ht))"
    using len by auto
  then have u: "unat (of_nat i :: uint_t) = i"
    using unat_lt32[of "ht_table_length ht"] by (simp add: unat_of_nat)
  then have "(of_nat i :: uint_t) < ht_table_length ht" using i by (simp add: word_less_nat_alt)
  then show "it_valid ht (it\<lparr>it_parent := [], it_index := of_nat i, it_entry := c\<rparr>)"
    "it_rem ht (it\<lparr>it_parent := [], it_index := of_nat i, it_entry := c\<rparr>)
         = concat (drop (unat j) (ht_table ht))"
    using i u by (auto simp: it_valid_def it_rem_def)
qed

lemma create_iterator_rem:
  assumes inv: "ht_inv ht" and small: "length (ht_entries ht) < 2 ^ 32"
    and cr: "create_hashtable_iterator ht ok = Some it"
  shows "it_valid ht it" "it_rem ht it = ht_entries ht"
proof -
  have it0: "it_valid ht \<lparr>it_entry = [], it_parent = [], it_index = ht_table_length ht\<rparr>"
    by (simp add: it_valid_def)
  have cnt: "ht_entry_count ht = 0 \<longleftrightarrow> ht_entries ht = []"
    using inv small by (auto simp: ht_inv_def of_nat_eq_0_iff word_of_nat_eq_0_iff dest!: nat_dvd_not_less)
  have "it_valid ht it \<and> it_rem ht it = ht_entries ht"
  proof (cases "ht_entry_count ht = 0 \<or> first_chain 0 (ht_table ht) = None")
    case True
    then have "ht_entries ht = []"
      using cnt first_chain_None[of 0 "ht_table ht"] by (auto simp: ht_entries_def)
    with True cr it0 it_rem_end[OF inv it0] show ?thesis
      by (auto simp: create_hashtable_iterator_def Let_def split: if_splits)
  next
    case False
    then obtain i c where f: "first_chain 0 (ht_table ht) = Some (i, c)" by auto
    with cr False have "it = \<lparr>it_entry = [], it_parent = [], it_index = ht_table_length ht\<rparr>
        \<lparr>it_parent := [], it_index := of_nat i, it_entry := c\<rparr>"
      by (auto simp: create_hashtable_iterator_def Let_def split: if_splits)
    with it_at_chain[OF inv, of 0 i c \<open>\<lparr>it_entry = [], it_parent = [], it_index = ht_table_length ht\<rparr>\<close>] f
    show ?thesis by (simp add: ht_entries_def)
  qed
  then show "it_valid ht it" "it_rem ht it = ht_entries ht" by blast+
qed

lemma create_iterator_total: "create_hashtable_iterator ht True \<noteq> None"
  by (auto simp: create_hashtable_iterator_def Let_def split: option.splits)

lemma advance_rem:
  assumes inv: "ht_inv ht" and v: "it_valid ht it" and ne: "it_entry it \<noteq> []"
    and adv: "hashtable_iterator_advance ht it = (r, it')"
  shows "it_valid ht it' \<and> it_rem ht it' = tl (it_rem ht it) \<and> (r = 0 \<longleftrightarrow> tl (it_rem ht it) = [])"
proof -
  obtain e nxt where en: "it_entry it = e # nxt" using ne by (cases "it_entry it") auto
  from v en obtain pre where pre: "it_index it < ht_table_length ht"
    "ht_table ht ! unat (it_index it) = pre @ e # nxt" by (auto simp: it_valid_def)
  have u: "unat (it_index it + 1) = Suc (unat (it_index it))"
    using pre(1) unat_lt32[of "ht_table_length ht"]
    by (simp add: word_less_nat_alt unat_word_ariths)
  have len: "length (ht_table ht) = unat (ht_table_length ht)" using inv by (simp add: ht_inv_def)
  show ?thesis
  proof (cases "nxt = []")
    case False
    with adv en have "r = -1" "it' = it\<lparr>it_parent := it_entry it, it_entry := nxt\<rparr>"
      by (auto simp: hashtable_iterator_advance_def)
    with en pre False show ?thesis
      by (auto simp: it_valid_def it_rem_def intro: exI[of _ "pre @ [e]"])
  next
    case True
    let ?j = "it_index it + 1"
    have rest: "tl (it_rem ht it) = concat (drop (unat ?j) (ht_table ht))"
      using en True u by (simp add: it_rem_def)
    show ?thesis
    proof (cases "ht_table_length ht \<le> ?j \<or> first_chain (unat ?j) (drop (unat ?j) (ht_table ht)) = None")
      case c: True
      then have "tl (it_rem ht it) = []"
        using rest len first_chain_None[of "unat ?j"] by (auto simp: word_le_nat_alt)
      moreover have "r = 0" "it_entry it' = []" "ht_table_length ht \<le> it_index it'"
        using adv en True c by (auto simp: hashtable_iterator_advance_def Let_def split: if_splits option.splits)
      ultimately show ?thesis using it_rem_end[OF inv, of it'] by (simp add: it_valid_def)
    next
      case c: False
      then obtain i ch where f: "first_chain (unat ?j) (drop (unat ?j) (ht_table ht)) = Some (i, ch)" by auto
      then have "r = -1" "it' = it\<lparr>it_parent := [], it_index := of_nat i, it_entry := ch\<rparr>"
        using adv en True c by (auto simp: hashtable_iterator_advance_def Let_def)
      with it_at_chain[OF inv f, of it] rest first_chain_Some[OF f] show ?thesis
        by (auto simp: it_rem_def)
    qed
  qed
qed

lemma iterate_from_rem:
  "ht_inv ht \<Longrightarrow> it_valid ht it \<Longrightarrow> length (it_rem ht it) \<le> n \<Longrightarrow> iterate_from n ht it = it_rem ht it"
proof (induction n arbitrary: it)
  case (Suc n)
  show ?case
  proof (cases "it_entry it")
    case Nil
    then show ?thesis using it_rem_end[OF Suc.prems(1,2)] by simp
  next
    case (Cons e nxt)
    obtain r it' where a: "hashtable_iterator_advance ht it = (r, it')" by fastforce
    have rem: "it_rem ht it = e # tl (it_rem ht it)" using Cons by (simp add: it_rem_def)
    from advance_rem[OF Suc.prems(1,2) _ a] Cons
    have "it_valid ht it'" "it_rem ht it' = tl (it_rem ht it)" "r = 0 \<longleftrightarrow> tl (it_rem ht it) = []" by auto
    with Suc.IH[OF Suc.prems(1), of it'] Suc.prems(3) Cons a rem show ?thesis
      by (cases "it_rem ht it") auto
  qed
qed simp


lemma ht_inv_shrink:
  assumes inv: "ht_inv ht" and i: "i < length (ht_table ht)"
    and c: "mset (ht_table ht ! i) = add_mset e (mset c)"
  shows "ht_inv (ht\<lparr>ht_table := (ht_table ht)[i := c], ht_entry_count := ht_entry_count ht - 1\<rparr>)"
    and "add_mset e (mset (ht_entries (ht\<lparr>ht_table := (ht_table ht)[i := c],
           ht_entry_count := ht_entry_count ht - 1\<rparr>))) = mset (ht_entries ht)"
proof -
  let ?T = "ht_table ht" and ?ht = "ht\<lparr>ht_table := (ht_table ht)[i := c], ht_entry_count := ht_entry_count ht - 1\<rparr>"
  have "mset (concat (?T[i := c])) + add_mset e (mset c) = mset (concat ?T) + mset c"
    using mset_concat_update[OF i, of c] c by simp
  then have m: "add_mset e (mset (concat (?T[i := c]))) = mset (concat ?T)"
    by (simp flip: add_mset_add_single)
  have sub: "set (concat (?T[i := c])) \<subseteq> set (concat ?T)"
    using arg_cong[OF m, of set_mset] by auto
  have len: "length (concat ?T) = Suc (length (concat (?T[i := c])))"
    using arg_cong[OF m, of size] by simp
  have cs: "set c \<subseteq> set (?T ! i)" using arg_cong[OF c, of set_mset] by auto
  have "placed (ht_table_length ht) (?T[i := c])"
    unfolding placed_def
  proof (intro allI impI ballI)
    fix j x assume j: "j < length (?T[i := c])" and x: "x \<in> set (?T[i := c] ! j)"
    then have "j < length ?T \<and> x \<in> set (?T ! j)" using cs by (cases "j = i") auto
    then show "unat (indexFor (ht_table_length ht) (he_hash x)) = j"
      using inv by (simp add: ht_inv_def placed_def)
  qed
  with inv sub len show "ht_inv ?ht" by (auto simp: ht_inv_def ht_entries_def)
  show "add_mset e (mset (ht_entries ?ht)) = mset (ht_entries ht)" using m by (simp add: ht_entries_def)
qed

lemma iterator_remove_step:
  assumes inv: "ht_inv ht" and v: "it_valid ht it" and en: "it_entry it = e # nxt"
  shows "\<exists>r ht' it'. hashtable_iterator_remove ht it fk
        = Some (r, ht', it', (if fk then [he_key e] else []) @ [he_self e])
      \<and> ht_inv ht' \<and> add_mset e (mset (ht_entries ht')) = mset (ht_entries ht)
      \<and> it_valid ht' it' \<and> it_rem ht' it' = tl (it_rem ht it) \<and> (r = 0 \<longleftrightarrow> tl (it_rem ht it) = [])"
proof -
  let ?i = "unat (it_index it)"
  from v en obtain pre where pre: "it_index it < ht_table_length ht"
    "ht_table ht ! ?i = pre @ e # nxt" "it_parent it = (if pre = [] then [] else last pre # e # nxt)"
    by (auto simp: it_valid_def)
  let ?ht = "ht\<lparr>ht_table := (ht_table ht)[?i := pre @ nxt], ht_entry_count := ht_entry_count ht - 1\<rparr>"
  have i: "?i < length (ht_table ht)" using inv pre(1) by (simp add: ht_inv_def word_less_nat_alt)
  have inv': "ht_inv ?ht" "add_mset e (mset (ht_entries ?ht)) = mset (ht_entries ht)"
    using ht_inv_shrink[OF inv i, of e "pre @ nxt"] pre(2) by simp_all
  \<comment> \<open>the advance sees the removed node in front of the rest of its chain\<close>
  obtain r it1 where adv: "hashtable_iterator_advance ?ht it = (r, it1)" by fastforce
  define it2 where "it2 = (if it_parent it1 = it_entry it
      then it1\<lparr>it_parent := if it_parent it = [] then [] else hd (it_parent it) # nxt\<rparr> else it1)"
  have chain: "(if it_parent it = [] then nxt
      else take (length (pre @ e # nxt) - length (it_parent it)) (pre @ e # nxt) @ hd (it_parent it) # nxt) = pre @ nxt"
    using pre(3) by (cases pre rule: rev_cases) auto
  have rm: "hashtable_iterator_remove ht it fk = Some (r, ?ht, it2, (if fk then [he_key e] else []) @ [he_self e])"
    unfolding hashtable_iterator_remove_def Let_def it2_def
    by (simp only: en pre(2) list.case chain adv prod.case)
  have "it_valid ?ht it2 \<and> it_rem ?ht it2 = tl (it_rem ht it) \<and> (r = 0 \<longleftrightarrow> tl (it_rem ht it) = [])"
  proof (cases "nxt = []")
    case False
    with adv en have "r = -1" "it1 = it\<lparr>it_parent := it_entry it, it_entry := nxt\<rparr>"
      by (auto simp: hashtable_iterator_advance_def)
    with en pre False i show ?thesis
      by (auto simp: it_valid_def it_rem_def it2_def intro: exI[of _ pre])
  next
    case True
    \<comment> \<open>the same advance on a table whose chain still ends in the removed node\<close>
    have u: "unat (it_index it + 1) = Suc ?i"
      using pre(1) unat_lt32[of "ht_table_length ht"] by (simp add: word_less_nat_alt unat_word_ariths)
    have adv': "hashtable_iterator_advance ht it = (r, it1)"
      unfolding adv[symmetric] by (simp add: hashtable_iterator_advance_def Let_def en True u split: option.split)
    have par: "it_parent it1 = []" using adv en True
      by (auto simp: hashtable_iterator_advance_def Let_def split: if_splits option.splits)
    from advance_rem[OF inv v _ adv'] en
    have a: "it_valid ht it1" "it_rem ht it1 = tl (it_rem ht it)" "r = 0 \<longleftrightarrow> tl (it_rem ht it) = []" by auto
    have gt: "Suc ?i \<le> unat (it_index it1)"
      using adv' en True u inv pre(1) first_chain_Some[of "Suc ?i" "drop (Suc ?i) (ht_table ht)"]
        unat_lt32[of "ht_table_length ht"]
      by (auto simp: hashtable_iterator_advance_def Let_def ht_inv_def word_less_nat_alt unat_of_nat
          split: if_splits option.splits)
    have "it2 = it1" using par en by (simp add: it2_def)
    then show ?thesis using a gt by (auto simp: it_valid_def it_rem_def)
  qed
  with rm inv' show ?thesis by blast
qed


section \<open>The table as a map\<close>

lemma ht_map_mem:
  "ht_distinct ht \<Longrightarrow> ht_map ht k = Some v \<longleftrightarrow> (\<exists>e \<in> set (ht_entries ht). he_key e = k \<and> he_value e = v)"
  by (auto simp: ht_distinct_def ht_map_def map_of_eq_Some_iff comp_def)

lemma ht_map_None: "ht_map ht k = None \<longleftrightarrow> (\<forall>e \<in> set (ht_entries ht). he_key e \<noteq> k)"
  by (auto simp: ht_map_def map_of_eq_None_iff image_image image_iff)

lemma ht_distinct_add:
  assumes "mset (ht_entries ht') = add_mset e (mset (ht_entries ht))"
  shows "ht_distinct ht' \<longleftrightarrow> ht_distinct ht \<and> ht_map ht (he_key e) = None"
proof -
  have "mset (map he_key (ht_entries ht')) = mset (he_key e # map he_key (ht_entries ht))"
    using assms by (simp add: mset_map)
  then have "distinct (map he_key (ht_entries ht')) \<longleftrightarrow> distinct (he_key e # map he_key (ht_entries ht))"
    by (rule mset_eq_imp_distinct_iff)
  then show ?thesis by (auto simp: ht_distinct_def ht_map_None image_iff)
qed

lemma ht_map_add:
  assumes m: "mset (ht_entries ht') = add_mset e (mset (ht_entries ht))"
    and d: "ht_distinct ht'"
  shows "ht_map ht' = (ht_map ht)(he_key e \<mapsto> he_value e)"
proof
  fix k
  from d have d0: "ht_distinct ht" "ht_map ht (he_key e) = None"
    using ht_distinct_add[OF m] by auto
  have s: "set (ht_entries ht') = insert e (set (ht_entries ht))"
    using arg_cong[OF m, of set_mset] by simp
  show "ht_map ht' k = ((ht_map ht)(he_key e \<mapsto> he_value e)) k"
  proof (cases "k = he_key e")
    case True
    then show ?thesis using ht_map_mem[OF d, of k "he_value e"] by (simp add: s)
  next
    case False
    then have "ht_map ht' k = Some v \<longleftrightarrow> ht_map ht k = Some v" for v
      unfolding ht_map_mem[OF d] ht_map_mem[OF d0(1)] s by auto
    then have "ht_map ht' k = ht_map ht k"
      by (metis not_None_eq)
    with False show ?thesis by simp
  qed
qed

lemma hashtable_change_mset:
  assumes inv: "ht_inv ht"
  shows "case find (\<lambda>e. he_key e = k) (ht_entries ht) of
      None \<Rightarrow> hashtable_change ht k v fv = (0, ht, [])
    | Some e \<Rightarrow> \<exists>ht' c. hashtable_change ht k v fv = (-1, ht', if fv then [he_value e] else [])
        \<and> ht_inv ht'
        \<and> mset (ht_entries ht) = add_mset e c
        \<and> mset (ht_entries ht') = add_mset (e\<lparr>he_value := v\<rparr>) c"
proof -
  let ?i = "ht_bucket ht k" and ?m = "entry_matches ht (do_hash ht k) k"
  let ?c = "ht_table ht ! ?i"
  note fb = find_bucket[OF inv, of k]
  show ?thesis
  proof (cases "find ?m ?c")
    case None
    then show ?thesis by (simp add: fb hashtable_change_def Let_def chain_change_find ht_bucket_def)
  next
    case (Some e)
    let ?n = "length (takeWhile (\<lambda>x. \<not> ?m x) ?c)" and ?e = "e\<lparr>he_value := v\<rparr>"
    define c where "c = take ?n ?c @ drop (Suc ?n) ?c"
    have n: "?n < length ?c" "?c ! ?n = e" using find_takeWhile[OF Some] by auto
    have mc: "mset ?c = add_mset e (mset c)"
      using arg_cong[OF id_take_nth_drop[OF n(1), unfolded n(2)], of mset]
      by (simp only: c_def mset_append mset.simps union_mset_add_mset_right)
    have mu: "mset (?c[?n := ?e]) = add_mset ?e (mset c)"
      using n by (simp add: c_def upd_conv_take_nth_drop)
    have i: "?i < length (ht_table ht)" by (rule ht_bucket_less[OF inv])
    define h1 where "h1 = ht\<lparr>ht_table := (ht_table ht)[?i := c], ht_entry_count := ht_entry_count ht - 1\<rparr>"
    from ht_inv_shrink[OF inv i mc]
    have h1: "ht_inv h1" "mset (ht_entries ht) = add_mset e (mset (ht_entries h1))" by (simp_all add: h1_def)
    define ht' where "ht' = ht\<lparr>ht_table := (ht_table ht)[?i := ?c[?n := ?e]]\<rparr>"
    have ch: "hashtable_change ht k v fv = (-1, ht', if fv then [he_value e] else [])"
      by (simp add: hashtable_change_def Let_def chain_change_find ht_bucket_def[symmetric] Some ht'_def)
    have "mset (ht_entries ht') + mset ?c = mset (ht_entries ht) + mset (?c[?n := ?e])"
      using mset_concat_update[OF i] by (simp add: ht_entries_def ht'_def)
    then have m': "mset (ht_entries ht') = add_mset ?e (mset (ht_entries h1))"
      unfolding h1(2) mc mu by simp
    have ee: "e \<in> set ?c" "he_hash ?e = he_hash e" "he_key ?e = he_key e" using find_SomeD[OF Some] by auto
    have "placed (ht_table_length ht) ((ht_table ht)[?i := ?c[?n := ?e]])"
      unfolding placed_def
    proof (intro allI impI ballI)
      fix j x assume j: "j < length ((ht_table ht)[?i := ?c[?n := ?e]])" and x: "x \<in> set ((ht_table ht)[?i := ?c[?n := ?e]] ! j)"
      then obtain y where "j < length (ht_table ht)" "y \<in> set (ht_table ht ! j)" "he_hash y = he_hash x"
        using ee i set_update_subset_insert[of ?c ?n ?e] by (cases "j = ?i") fastforce+
      then show "unat (indexFor (ht_table_length ht) (he_hash x)) = j"
        using inv unfolding ht_inv_def placed_def by force
    qed
    moreover have "set (ht_entries ht') = insert ?e (set (ht_entries h1))"
      "set (ht_entries ht) = insert e (set (ht_entries h1))"
      "length (ht_entries ht') = length (ht_entries ht)"
      using arg_cong[OF m', of set_mset] arg_cong[OF h1(2), of set_mset]
        arg_cong[OF m', of size] arg_cong[OF h1(2), of size] by auto
    ultimately have "ht_inv ht'" using inv ee by (auto simp: ht_inv_def ht'_def)
    with ch m' h1(2) Some show ?thesis by (auto simp: fb)
  qed
qed


section \<open>Properties\<close>

definition demo_hash :: "addr_t \<Rightarrow> uint_t" where
  "demo_hash k = ucast (hash_long k 32)"

definition demo_ht0 :: hashtable where
  "demo_ht0 = the (create_hashtable 10 demo_hash (=) True True)"

definition demo_ht1 :: hashtable where
  "demo_ht1 = snd (the (hashtable_insert demo_ht0 7 9 True True (Some 4096)))"

lemma demo_create: "create_hashtable 10 demo_hash (=) True True = Some demo_ht0"
  by (simp add: demo_ht0_def create_hashtable_def primes_def Let_def)

lemma demo_insert: "hashtable_insert demo_ht0 7 9 True True (Some 4096) = Some (-1, demo_ht1)"
  unfolding demo_ht1_def using hashtable_insert_defined[of demo_ht0 7 9 True 4096]
    hashtable_insert_cases(3)[OF ht_inv_create(1)[OF demo_create], of 7 9 True True "Some 4096"] by force

lemma demo_inv: "ht_inv demo_ht0" "ht_distinct demo_ht0" "ht_map demo_ht0 = (\<lambda>k. None)" "ht_inv demo_ht1"
  using ht_inv_create[OF demo_create] hashtable_insert_cases(1)[OF _ demo_insert]
  by (simp_all add: ht_distinct_def ht_map_def)

lemma demo_entries: "ht_entries demo_ht1 = [\<lparr>he_self = 4096, he_key = 7, he_value = 9, he_hash = do_hash demo_ht0 7\<rparr>]"
  using hashtable_insert_cases(3)[OF demo_inv(1) demo_insert] ht_inv_create(2)[OF demo_create] by simp

lemma demo_map: "ht_distinct demo_ht1" "ht_map demo_ht1 = [7 \<mapsto> 9]"
  by (simp_all add: ht_distinct_def ht_map_def demo_entries)

text \<open>C8: A successful insertion of a key that the table does not hold adds exactly that binding,
  whether or not the table had to be expanded: the invariant and the distinctness of the keys are
  kept, a search for the key returns its value, and every other search is unchanged.\<close>

theorem hashtable_insert_map:
  assumes "ht_inv ht" "ht_distinct ht" "ht_map ht key = None"
    and "hashtable_insert ht key value new_ok realloc_ok (Some p) = Some (r, ht')"
  shows "r = -1 \<and> ht_inv ht' \<and> ht_distinct ht' \<and> ht_map ht' = (ht_map ht)(key \<mapsto> value)
    \<and> (\<forall>k. hashtable_search ht' k = (if k = key then value else hashtable_search ht k))"
proof -
  note c = hashtable_insert_cases[OF assms(1,4)]
  let ?e = "\<lparr>he_self = p, he_key = key, he_value = value, he_hash = do_hash ht key\<rparr>"
  have m: "mset (ht_entries ht') = add_mset ?e (mset (ht_entries ht))" and "r = -1" using c(3) by simp_all
  moreover have d: "ht_distinct ht'" using ht_distinct_add[OF m] assms(2,3) by simp
  ultimately show ?thesis using c(1) assms(1) ht_map_add[OF m d] by (simp add: hashtable_search_map)
qed

lemma hashtable_insert_map_witness:
  "\<exists>ht. hashtable_insert demo_ht0 7 9 True True (Some 4096) = Some (-1, ht)
     \<and> hashtable_search ht 7 = 9 \<and> hashtable_search ht 8 = 0"
  using hashtable_insert_map[OF demo_inv(1,2) _ demo_insert]
  by (simp add: demo_inv demo_insert hashtable_search_map)

text \<open>C10: Removing a key returns the value a search would have found (the null pointer for an absent
  key), deletes exactly that binding and frees the entry node, and the key too if asked to.\<close>

theorem hashtable_remove_map:
  assumes "ht_inv ht" "ht_distinct ht"
  shows "\<exists>ht' freed. hashtable_remove ht k free_key = (hashtable_search ht k, ht', freed)
    \<and> ht_inv ht' \<and> ht_distinct ht' \<and> ht_map ht' = (ht_map ht)(k := None) \<and> hashtable_search ht' k = 0
    \<and> (ht_map ht k = None \<longrightarrow> ht' = ht \<and> freed = [])
    \<and> (ht_map ht k \<noteq> None \<longrightarrow> (\<exists>e \<in> set (ht_entries ht). he_key e = k
          \<and> freed = (if free_key then [k] else []) @ [he_self e]))"
proof (cases "find (\<lambda>e. he_key e = k) (ht_entries ht)")
  case None
  then have "ht_map ht k = None" by (simp add: ht_map_def map_of_entries)
  with None hashtable_remove_find[OF assms(1), of k free_key] assms show ?thesis
    by (auto simp: hashtable_search_map fun_upd_idem)
next
  case (Some e)
  with hashtable_remove_find[OF assms(1), of k free_key] obtain ht' where
    r: "hashtable_remove ht k free_key = (he_value e, ht', (if free_key then [he_key e] else []) @ [he_self e])"
    and i: "ht_inv ht'" and m: "mset (ht_entries ht) = add_mset e (mset (ht_entries ht'))" by auto
  have e: "he_key e = k" "e \<in> set (ht_entries ht)" using find_SomeD[OF Some] by auto
  have d: "ht_distinct ht'" "ht_map ht' k = None" using ht_distinct_add[OF m] assms(2) e by auto
  have "ht_map ht = (ht_map ht')(k \<mapsto> he_value e)" using ht_map_add[OF m assms(2)] e by simp
  with r i d e show ?thesis using assms(1)
    by (auto simp: hashtable_search_map fun_upd_idem)
qed

lemma hashtable_remove_map_witness:
  "\<exists>ht' freed. hashtable_remove demo_ht1 7 True = (9, ht', freed) \<and> hashtable_search ht' 7 = 0"
  using hashtable_remove_map[OF demo_inv(4) demo_map(1), of 7 True]
  by (auto simp: hashtable_search_map[OF demo_inv(4)] demo_map)

text \<open>C24: Changing the value of a present key rebinds it, keeps everything else and frees the old
  value only if asked to; changing an absent key reports failure and leaves the table alone.\<close>

theorem hashtable_change_map:
  assumes "ht_inv ht" "ht_distinct ht"
  shows "case ht_map ht k of
      None \<Rightarrow> hashtable_change ht k v free_value = (0, ht, [])
    | Some old \<Rightarrow> \<exists>ht'. hashtable_change ht k v free_value = (-1, ht', if free_value then [old] else [])
        \<and> ht_inv ht' \<and> ht_distinct ht' \<and> ht_map ht' = (ht_map ht)(k \<mapsto> v)"
proof (cases "find (\<lambda>e. he_key e = k) (ht_entries ht)")
  case None
  then show ?thesis using hashtable_change_mset[OF assms(1), of k v free_value]
    by (simp add: ht_map_def map_of_entries)
next
  case (Some e)
  with hashtable_change_mset[OF assms(1), of k v free_value] obtain ht' c where
    r: "hashtable_change ht k v free_value = (-1, ht', if free_value then [he_value e] else [])"
    and i: "ht_inv ht'" and m: "mset (ht_entries ht) = add_mset e c"
      "mset (ht_entries ht') = add_mset (e\<lparr>he_value := v\<rparr>) c" by auto
  obtain es where es: "c = mset es" using ex_mset by metis
  have e: "he_key e = k" using find_SomeD[OF Some] by simp
  define h0 where "h0 = ht\<lparr>ht_table := [es]\<rparr>"
  have m0: "mset (ht_entries ht) = add_mset e (mset (ht_entries h0))"
    "mset (ht_entries ht') = add_mset (e\<lparr>he_value := v\<rparr>) (mset (ht_entries h0))"
    using m es by (simp_all add: h0_def ht_entries_def)
  have d: "ht_distinct ht'" using ht_distinct_add[OF m0(1)] ht_distinct_add[OF m0(2)] assms(2) by simp
  have "ht_map ht = (ht_map h0)(k \<mapsto> he_value e)" "ht_map ht' = (ht_map h0)(k \<mapsto> v)"
    using ht_map_add[OF m0(1) assms(2)] ht_map_add[OF m0(2) d] e by simp_all
  with r i d show ?thesis by simp
qed

lemma hashtable_change_map_witness:
  "\<exists>ht'. hashtable_change demo_ht1 7 11 True = (-1, ht', [9]) \<and> ht_map ht' = [7 \<mapsto> 11]"
  using hashtable_change_map[OF demo_inv(4) demo_map(1), of 7 11 True] by (auto simp: demo_map)

text \<open>C15: An iterator over a table visits every entry exactly once, in table order, and the loop
  over it ends: with as much fuel as there are entries the visit list is the entry list.\<close>

theorem iterator_visits_all:
  assumes "ht_inv ht" "length (ht_entries ht) < 2 ^ 32"
    and "create_hashtable_iterator ht True = Some it" and "length (ht_entries ht) \<le> n"
  shows "iterate_from n ht it = ht_entries ht"
  using create_iterator_rem[OF assms(1-3)] iterate_from_rem[OF assms(1), of it n] assms(4) by simp

lemma iterator_visits_all_witness:
  "\<exists>it. create_hashtable_iterator demo_ht1 True = Some it
     \<and> map he_key (iterate_from 3 demo_ht1 it) = [7]"
proof -
  obtain it where "create_hashtable_iterator demo_ht1 True = Some it" using create_iterator_total by blast
  with iterator_visits_all[OF demo_inv(4) _ this, of 3] show ?thesis by (simp add: demo_entries)
qed

text \<open>C23: Removing at an iterator deletes exactly the entry it stands at, frees that node, and moves
  the iterator on to what it had still to visit; the result says whether anything is left.\<close>

theorem iterator_remove_exact:
  assumes "ht_inv ht" "it_valid ht it" "it_entry it = e # nxt"
  shows "\<exists>r ht' it'. hashtable_iterator_remove ht it free_key
        = Some (r, ht', it', (if free_key then [he_key e] else []) @ [he_self e])
      \<and> ht_inv ht' \<and> add_mset e (mset (ht_entries ht')) = mset (ht_entries ht)
      \<and> it_valid ht' it' \<and> it_rem ht' it' = tl (it_rem ht it) \<and> (r = 0 \<longleftrightarrow> tl (it_rem ht it) = [])"
  by (rule iterator_remove_step[OF assms])

lemma iterator_remove_exact_witness:
  "\<exists>it r ht' it'. create_hashtable_iterator demo_ht1 True = Some it
     \<and> hashtable_iterator_remove demo_ht1 it False = Some (r, ht', it', [4096]) \<and> ht_entries ht' = []"
proof -
  obtain it where c: "create_hashtable_iterator demo_ht1 True = Some it" using create_iterator_total by blast
  from create_iterator_rem[OF demo_inv(4) _ c] have v: "it_valid demo_ht1 it" "it_rem demo_ht1 it = ht_entries demo_ht1"
    by (simp_all add: demo_entries)
  then have "it_entry it \<noteq> []"
    using demo_inv(4) by (auto simp: it_valid_def it_rem_def demo_entries ht_inv_def word_le_nat_alt)
  then obtain e nxt where e: "it_entry it = e # nxt" by (cases "it_entry it") auto
  then have "e = hd (ht_entries demo_ht1)" using v(2) by (auto simp: it_rem_def demo_entries)
  with iterator_remove_exact[OF demo_inv(4) v(1) e, of False] c show ?thesis
    by (auto simp: demo_entries)
qed

end
