(* ===== verification/V3_Guest.thy ===== *)
theory V3_Guest
  imports V3_Paging V3_Hashtable V3_Intr
begin

text \<open>
  The guest state, its processor modes (\<^verbatim>\<open>vm_guest.c\<close>) and the translations between guest and host
  addresses (\<^verbatim>\<open>vm_guest_mem.c\<close>). The host's address translation (\<open>os_hooks\<close>) is an argument. A
  translation that fails returns -1 in the code and \<open>None\<close> here; no caller uses what a failed one
  leaves in its output.
\<close>

section \<open>State\<close>

datatype v3_paging_mode = SHADOW_PAGING | NESTED_PAGING
datatype v3_vm_cpu_mode = REAL | PROTECTED | PROTECTED_PAE | LONG | LONG_32_COMPAT | LONG_16_COMPAT
datatype v3_vm_mem_mode = PHYSICAL_MEM | VIRTUAL_MEM

record v3_ctrl_regs =
  cr0 :: v3_reg_t
  cr2 :: v3_reg_t
  cr3 :: v3_reg_t
  cr4 :: v3_reg_t
  cr8 :: v3_reg_t
  rflags :: v3_reg_t
  efer :: v3_reg_t

record shadow_page_state =
  guest_cr3 :: v3_reg_t
  guest_cr0 :: v3_reg_t
  shadow_cr3 :: v3_reg_t
  cr3_cache :: "hashtable option"
  cached_ptes :: "hashtable option"
  cached_cr3 :: addr_t

record v3_segment =
  seg_selector :: ushort_t
  seg_limit :: uint_t
  seg_base :: ullong_t
  seg_long_mode :: bool

record v3_segments =
  cs_seg :: v3_segment
  ds_seg :: v3_segment
  es_seg :: v3_segment
  fs_seg :: v3_segment
  gs_seg :: v3_segment
  ss_seg :: v3_segment

text \<open>\<open>host_mem\<close> is the memory of the host as the monitor addresses it; guest memory is part of it, and so
  are the general purpose registers of the guest: the decoder hands out pointers into them, and
  \<open>vm_regs\<close> is their address.\<close>

record 'c guest_info = mem_state +
  rip :: ullong_t
  intr_state :: "'c v3_intr_state"
  shdw_pg_mode :: v3_paging_mode
  shdw_pg_state :: shadow_page_state
  cpu_mode :: v3_vm_cpu_mode
  mem_mode :: v3_vm_mem_mode
  direct_map_pt :: addr_t
  vm_regs :: addr_t
  ctrl_regs :: v3_ctrl_regs
  segments :: v3_segments
  host_mem :: mem

record os_hooks =
  paddr_to_vaddr :: "(addr_t \<Rightarrow> addr_t) option"
  vaddr_to_paddr :: "(addr_t \<Rightarrow> addr_t) option"

definition V3_VAddr :: "os_hooks \<Rightarrow> addr_t \<Rightarrow> addr_t" where
  "V3_VAddr h addr = (case paddr_to_vaddr h of None \<Rightarrow> 0 | Some f \<Rightarrow> f addr)"

definition V3_PAddr :: "os_hooks \<Rightarrow> addr_t \<Rightarrow> addr_t" where
  "V3_PAddr h addr = (case vaddr_to_paddr h of None \<Rightarrow> 0 | Some f \<Rightarrow> f addr)"

section \<open>Processor modes\<close>

definition cr0_pe :: "v3_reg_t \<Rightarrow> bool" where "cr0_pe r = bf_flag 0 r"
definition cr0_pg :: "v3_reg_t \<Rightarrow> bool" where "cr0_pg r = bf_flag 31 r"
definition cr4_pae :: "v3_reg_t \<Rightarrow> bool" where "cr4_pae r = bf_flag 5 r"
definition efer_lma :: "v3_reg_t \<Rightarrow> bool" where "efer_lma r = bf_flag 10 r"

definition mode_cr0 :: "'c guest_info \<Rightarrow> v3_reg_t" where
  "mode_cr0 info = (case shdw_pg_mode info of
     SHADOW_PAGING \<Rightarrow> guest_cr0 (shdw_pg_state info) | NESTED_PAGING \<Rightarrow> cr0 (ctrl_regs info))"

definition v3_get_cpu_mode :: "'c guest_info \<Rightarrow> v3_vm_cpu_mode" where
  "v3_get_cpu_mode info =
     (if \<not> cr0_pe (mode_cr0 info) then REAL
      else if \<not> cr4_pae (cr4 (ctrl_regs info)) \<and> \<not> efer_lma (efer (ctrl_regs info)) then PROTECTED
      else if \<not> efer_lma (efer (ctrl_regs info)) then PROTECTED_PAE
      else if efer_lma (efer (ctrl_regs info)) \<and> seg_long_mode (cs_seg (segments info)) then LONG
      else LONG_32_COMPAT)"

definition v3_get_mem_mode :: "'c guest_info \<Rightarrow> v3_vm_mem_mode" where
  "v3_get_mem_mode info = (if \<not> cr0_pg (mode_cr0 info) then PHYSICAL_MEM else VIRTUAL_MEM)"

section \<open>Address translation\<close>

definition host_va_to_host_pa :: "os_hooks \<Rightarrow> addr_t \<Rightarrow> addr_t option" where
  "host_va_to_host_pa h host_va =
     (case vaddr_to_paddr h of
        None \<Rightarrow> None
      | Some f \<Rightarrow> if f host_va = 0 then None else Some (f host_va))"

definition host_pa_to_host_va :: "os_hooks \<Rightarrow> addr_t \<Rightarrow> addr_t option" where
  "host_pa_to_host_va h host_pa =
     (case paddr_to_vaddr h of
        None \<Rightarrow> None
      | Some f \<Rightarrow> if f host_pa = 0 then None else Some (f host_pa))"

definition guest_pa_to_host_pa :: "'c guest_info \<Rightarrow> addr_t \<Rightarrow> addr_t option" where
  "guest_pa_to_host_pa info guest_pa =
     (case lookup_shadow_map_addr (mem_map info) guest_pa of
        (reg_type, host_pa) \<Rightarrow> if reg_type \<noteq> HOST_REGION_PHYSICAL_MEMORY then None else host_pa)"

definition host_pa_to_guest_pa :: "'c guest_info \<Rightarrow> addr_t \<Rightarrow> addr_t option" where
  "host_pa_to_guest_pa info host_pa = None"

definition host_va_to_guest_pa :: "os_hooks \<Rightarrow> 'c guest_info \<Rightarrow> addr_t \<Rightarrow> addr_t option" where
  "host_va_to_guest_pa h info host_va = Option.bind (host_va_to_host_pa h host_va) (host_pa_to_guest_pa info)"

definition guest_pa_to_host_va :: "os_hooks \<Rightarrow> 'c guest_info \<Rightarrow> addr_t \<Rightarrow> addr_t option" where
  "guest_pa_to_host_va h info guest_pa = Option.bind (guest_pa_to_host_pa info guest_pa) (host_pa_to_host_va h)"

definition guest_va_to_guest_pa :: "os_hooks \<Rightarrow> 'c guest_info \<Rightarrow> addr_t \<Rightarrow> addr_t option" where
  "guest_va_to_guest_pa h info guest_va =
     (if mem_mode info = PHYSICAL_MEM then Some guest_va
      else case cpu_mode info of
             PROTECTED \<Rightarrow>
               let guest_pde = V3_PAddr h (CR3_TO_PDE32 (V3_VAddr h)
                     (case shdw_pg_mode info of SHADOW_PAGING \<Rightarrow> guest_cr3 (shdw_pg_state info)
                      | NESTED_PAGING \<Rightarrow> cr3 (ctrl_regs info)))
               in (case guest_pa_to_host_va h info guest_pde of
                     None \<Rightarrow> None
                   | Some pde \<Rightarrow>
                       (case pde32_lookup (host_mem info) pde guest_va of
                          (PDE32_ENTRY_NOT_PRESENT, _) \<Rightarrow> None
                        | (PDE32_ENTRY_LARGE_PAGE, tmp_pa) \<Rightarrow> Some tmp_pa
                        | (PDE32_ENTRY_PTE32, tmp_pa) \<Rightarrow>
                            (case guest_pa_to_host_va h info tmp_pa of
                               None \<Rightarrow> None
                             | Some pte \<Rightarrow>
                                 (case pte32_lookup (host_mem info) pte guest_va of
                                    (ret, a) \<Rightarrow> if ret \<noteq> 0 then None else Some a))))
           | _ \<Rightarrow> None)"

definition guest_pa_to_guest_va :: "'c guest_info \<Rightarrow> addr_t \<Rightarrow> addr_t option" where
  "guest_pa_to_guest_va info guest_pa = None"

definition guest_va_to_host_pa :: "os_hooks \<Rightarrow> 'c guest_info \<Rightarrow> addr_t \<Rightarrow> addr_t option" where
  "guest_va_to_host_pa h info guest_va =
     Option.bind (guest_va_to_guest_pa h info guest_va) (guest_pa_to_host_pa info)"

definition host_pa_to_guest_va :: "'c guest_info \<Rightarrow> addr_t \<Rightarrow> addr_t option" where
  "host_pa_to_guest_va info host_pa =
     Option.bind (host_pa_to_guest_pa info host_pa) (guest_pa_to_guest_va info)"

definition guest_va_to_host_va :: "os_hooks \<Rightarrow> 'c guest_info \<Rightarrow> addr_t \<Rightarrow> addr_t option" where
  "guest_va_to_host_va h info guest_va =
     Option.bind (guest_va_to_guest_pa h info guest_va)
       (\<lambda>guest_pa. Option.bind (guest_pa_to_host_pa info guest_pa) (host_pa_to_host_va h))"

definition host_va_to_guest_va :: "os_hooks \<Rightarrow> 'c guest_info \<Rightarrow> addr_t \<Rightarrow> addr_t option" where
  "host_va_to_guest_va h info host_va =
     Option.bind (host_va_to_host_pa h host_va)
       (\<lambda>host_pa. Option.bind (host_pa_to_guest_pa info host_pa) (guest_pa_to_guest_va info))"

section \<open>Copies\<close>

text \<open>\<open>PAGE_ADDR\<close> is a 32-bit expression and the cursor is 64 bits wide: the difference is taken with 64 bits
  and then cut to a signed 32-bit number.\<close>

definition dist_to_pg_edge :: "addr_t \<Rightarrow> int" where
  "dist_to_pg_edge cursor = sint (ucast (ucast (PAGE_ADDR cursor + 4096) - cursor :: addr_t) :: uint_t)"

definition mem_bytes :: "mem \<Rightarrow> addr_t \<Rightarrow> nat \<Rightarrow> uchar_t list" where
  "mem_bytes m a n = map (\<lambda>i. m (a + of_nat i)) [0..<n]"

fun mem_write :: "mem \<Rightarrow> addr_t \<Rightarrow> uchar_t list \<Rightarrow> mem" where
  "mem_write m a [] = m"
| "mem_write m a (b # bs) = mem_write (m(a := b)) (a + 1) bs"

lemma ucast_down_diff: "(ucast (x - y) :: uint_t) = ucast x - ucast y" for x y :: addr_t
proof -
  have "take_bit 32 (take_bit 64 a - take_bit 64 b) = take_bit 32 (a - b)" for a b :: int
    using take_bit_diff[of 32 "take_bit 64 a" "take_bit 64 b"] take_bit_diff[of 32 a b] by simp
  then show ?thesis by transfer simp
qed

lemma PAGE_ADDR_diff: "PAGE_ADDR cursor = ucast cursor - take_bit 12 (ucast cursor)"
proof -
  have "PAGE_ADDR cursor + take_bit 12 (ucast cursor) = ucast cursor"
    unfolding PAGE_ADDR_def PAGE_ALIGNED_ADDR_def by (simp add: bits_ident)
  then show ?thesis by (simp add: eq_diff_eq)
qed

lemma dist_to_pg_edge_nat: "dist_to_pg_edge cursor = int (4096 - unat cursor mod 4096)"
proof -
  let ?t = "take_bit 12 (ucast cursor :: uint_t)"
  have t: "unat ?t = unat cursor mod 4096"
    unfolding unsigned_take_bit_eq by (simp add: unsigned_ucast_eq take_bit_eq_mod mod_mod_cancel)
  have "(ucast (ucast (PAGE_ADDR cursor + 4096) - cursor :: addr_t) :: uint_t) = 4096 - ?t"
    unfolding ucast_down_diff by (simp add: ucast_up_down PAGE_ADDR_diff)
  also have "4096 - ?t = of_nat (4096 - unat cursor mod 4096)"
  proof -
    have "unat ?t \<le> 4096" unfolding t by simp
    then show ?thesis unfolding t[symmetric] by (simp only: of_nat_diff) simp
  qed
  finally have eq: "dist_to_pg_edge cursor = sint (of_nat (4096 - unat cursor mod 4096) :: uint_t)"
    unfolding dist_to_pg_edge_def by (rule arg_cong)
  show ?thesis
    unfolding eq signed_of_nat of_int_eq_id id_apply by (rule signed_take_bit_int_eq_self) auto
qed

lemma dist_to_pg_edge_bounds: "1 \<le> dist_to_pg_edge cursor" "dist_to_pg_edge cursor \<le> 4096"
  by (simp_all add: dist_to_pg_edge_nat Suc_le_eq)

text \<open>
  The copy loops. The three loops of the code differ in the translation \<open>tr\<close> of the cursor and in the
  direction of the copy; a loop stops at the first page that does not translate. The caller's buffer is
  a list, not a part of guest memory.
\<close>

function copy_from_guest :: "(addr_t \<Rightarrow> addr_t option) \<Rightarrow> mem \<Rightarrow> addr_t \<Rightarrow> int \<Rightarrow> uchar_t list" where
  "copy_from_guest tr m cursor cnt =
     (if cnt > 0
      then let bytes_to_copy = (if dist_to_pg_edge cursor > cnt then cnt else dist_to_pg_edge cursor)
           in (case tr cursor of
                 None \<Rightarrow> []
               | Some host_va \<Rightarrow> mem_bytes m host_va (nat bytes_to_copy)
                   @ copy_from_guest tr m (cursor + of_int bytes_to_copy) (cnt - bytes_to_copy))
      else [])"
  by auto
termination
  by (relation "measure (\<lambda>(tr, m, cursor, cnt). nat cnt)")
    (use dist_to_pg_edge_bounds(1) in \<open>auto simp: Let_def split: if_splits\<close>, metis less_le_trans zero_less_one)

function copy_to_guest :: "(addr_t \<Rightarrow> addr_t option) \<Rightarrow> mem \<Rightarrow> addr_t \<Rightarrow> int \<Rightarrow> uchar_t list \<Rightarrow> int \<times> mem" where
  "copy_to_guest tr m cursor cnt src =
     (if cnt > 0
      then let bytes_to_copy = (if dist_to_pg_edge cursor > cnt then cnt else dist_to_pg_edge cursor)
           in (case tr cursor of
                 None \<Rightarrow> (0, m)
               | Some host_va \<Rightarrow>
                   (case copy_to_guest tr (mem_write m host_va (take (nat bytes_to_copy) src))
                           (cursor + of_int bytes_to_copy) (cnt - bytes_to_copy) (drop (nat bytes_to_copy) src) of
                      (bytes_written, m') \<Rightarrow> (bytes_to_copy + bytes_written, m')))
      else (0, m))"
  by auto
termination
  by (relation "measure (\<lambda>(tr, m, cursor, cnt, src). nat cnt)")
    (use dist_to_pg_edge_bounds(1) in \<open>auto simp: Let_def split: if_splits\<close>, metis less_le_trans zero_less_one)

declare copy_from_guest.simps [simp del] copy_to_guest.simps [simp del]

text \<open>The reads return the number of bytes read and the bytes.\<close>

definition read_guest_va_memory :: "os_hooks \<Rightarrow> 'c guest_info \<Rightarrow> addr_t \<Rightarrow> int \<Rightarrow> int \<times> uchar_t list" where
  "read_guest_va_memory h info guest_va cnt =
     (let dest = copy_from_guest (guest_va_to_host_va h info) (host_mem info) guest_va cnt
      in (int (length dest), dest))"

definition read_guest_pa_memory :: "os_hooks \<Rightarrow> 'c guest_info \<Rightarrow> addr_t \<Rightarrow> int \<Rightarrow> int \<times> uchar_t list" where
  "read_guest_pa_memory h info guest_pa cnt =
     (let dest = copy_from_guest (guest_pa_to_host_va h info) (host_mem info) guest_pa cnt
      in (int (length dest), dest))"

definition write_guest_pa_memory ::
    "os_hooks \<Rightarrow> 'c guest_info \<Rightarrow> addr_t \<Rightarrow> int \<Rightarrow> uchar_t list \<Rightarrow> int \<times> 'c guest_info" where
  "write_guest_pa_memory h info guest_pa cnt src =
     (case copy_to_guest (guest_pa_to_host_va h info) (host_mem info) guest_pa cnt src of
        (bytes_written, m) \<Rightarrow> (bytes_written, info\<lparr>host_mem := m\<rparr>))"

end
