(* ===== verification/V3_Guest_Mem.thy ===== *)
theory V3_Guest_Mem
  imports V3_Guest
begin

text \<open>
  Correctness of the guest memory accesses: the copy loops of \<^verbatim>\<open>vm_guest_mem.c\<close> against a byte-by-byte
  specification, and the translation of guest virtual addresses against the page walk of the processor
  on guest memory.
\<close>

section \<open>What the copies do\<close>

definition page_step :: "addr_t \<Rightarrow> nat \<Rightarrow> nat" where
  "page_step c n = min n (4096 - unat c mod 4096)"

lemma page_step_bounds: "page_step c n \<le> n" "0 < n \<Longrightarrow> 0 < page_step c n" "unat c mod 4096 + page_step c n \<le> 4096"
  by (auto simp: page_step_def)

lemma bytes_to_copy_nat:
  "(if dist_to_pg_edge c > int n then int n else dist_to_pg_edge c) = int (page_step c n)"
  by (auto simp: dist_to_pg_edge_nat page_step_def)

lemma copy_from_guest_step:
  "0 < n \<Longrightarrow> copy_from_guest tr m c (int n) = (case tr c of None \<Rightarrow> [] | Some a \<Rightarrow>
     mem_bytes m a (page_step c n) @ copy_from_guest tr m (c + of_nat (page_step c n)) (int (n - page_step c n)))"
  unfolding copy_from_guest.simps[of tr m c "int n"] bytes_to_copy_nat Let_def
  by (cases "tr c") (simp_all add: of_nat_diff page_step_bounds)

lemma copy_to_guest_step:
  "0 < n \<Longrightarrow> copy_to_guest tr m c (int n) src = (case tr c of None \<Rightarrow> (0, m) | Some a \<Rightarrow>
     (case copy_to_guest tr (mem_write m a (take (page_step c n) src)) (c + of_nat (page_step c n))
             (int (n - page_step c n)) (drop (page_step c n) src) of
        (w, m') \<Rightarrow> (int (page_step c n) + w, m')))"
  unfolding copy_to_guest.simps[of tr m c "int n"] bytes_to_copy_nat Let_def
  by (cases "tr c") (simp_all add: of_nat_diff page_step_bounds)

lemma copy_0 [simp]: "copy_from_guest tr m c 0 = []" "copy_to_guest tr m c 0 src = (0, m)"
  by (simp_all add: copy_from_guest.simps copy_to_guest.simps)

text \<open>A translation that maps whole pages: inside a page it adds the same offset on both sides.\<close>

definition page_linear :: "(addr_t \<Rightarrow> addr_t option) \<Rightarrow> bool" where
  "page_linear tr \<longleftrightarrow> (\<forall>c a i. tr c = Some a \<and> unat c mod 4096 + i < 4096 \<longrightarrow> tr (c + of_nat i) = Some (a + of_nat i))"

lemma page_linear_step:
  "page_linear tr \<Longrightarrow> tr c = Some a \<Longrightarrow> i < page_step c n \<Longrightarrow> tr (c + of_nat i) = Some (a + of_nat i)"
  using page_step_bounds(3)[of c n] by (auto simp: page_linear_def)

lemma copy_from_guest_spec:
  assumes "page_linear tr" "bs = copy_from_guest tr m c (int n)"
  shows "length bs \<le> n \<and> (\<forall>i < length bs. \<exists>a. tr (c + of_nat i) = Some a \<and> bs ! i = m a)
    \<and> (length bs < n \<longrightarrow> tr (c + of_nat (length bs)) = None)"
  using assms(2)
proof (induction n arbitrary: c bs rule: less_induct)
  case (less n)
  show ?case
  proof (cases "0 < n \<and> tr c \<noteq> None")
    case False
    then show ?thesis using less.prems by (cases "0 < n") (auto simp: copy_from_guest_step)
  next
    case True
    then obtain a where a: "tr c = Some a" by auto
    define k where "k = page_step c n"
    have k: "k \<le> n" "0 < k" using True page_step_bounds[where c = c and n = n] by (auto simp: k_def)
    define rest where "rest = copy_from_guest tr m (c + of_nat k) (int (n - k))"
    have bs: "bs = mem_bytes m a k @ rest"
      using True a less.prems by (simp add: copy_from_guest_step rest_def k_def)
    have IH: "length rest \<le> n - k" "\<And>i. i < length rest \<Longrightarrow> \<exists>a. tr (c + of_nat (k + i)) = Some a \<and> rest ! i = m a"
      "length rest < n - k \<Longrightarrow> tr (c + of_nat (k + length rest)) = None"
      using less.IH[OF _ rest_def] k by (auto simp: add.assoc)
    have "\<exists>a. tr (c + of_nat i) = Some a \<and> bs ! i = m a" if "i < length bs" for i
    proof (cases "i < k")
      case True
      then show ?thesis using page_linear_step[OF assms(1) a, where i = i and n = n] by (simp add: bs mem_bytes_def nth_append k_def)
    next
      case False
      then show ?thesis using IH(2)[of "i - k"] that by (simp add: bs mem_bytes_def nth_append)
    qed
    then show ?thesis using IH(1,3) k by (auto simp: bs mem_bytes_def)
  qed
qed

text \<open>Writing a list of bytes at a list of addresses.\<close>

fun write_at :: "addr_t list \<Rightarrow> uchar_t list \<Rightarrow> mem \<Rightarrow> mem" where
  "write_at (a # as) (b # bs) m = write_at as bs (m(a := b))"
| "write_at _ _ m = m"

lemma write_at_append: "length as = length bs \<Longrightarrow> write_at (as @ as') (bs @ bs') m = write_at as' bs' (write_at as bs m)"
  by (induction as bs arbitrary: m rule: list_induct2) auto

lemma mem_write_at: "mem_write m a bs = write_at (map (\<lambda>i. a + of_nat i) [0..<length bs]) bs m"
proof (induction bs arbitrary: m a)
  case (Cons b bs)
  have "map (\<lambda>i. a + of_nat i) [0..<length (b # bs)] = a # map (\<lambda>i. (a + 1) + of_nat i) [0..<length bs]"
    by (simp add: upt_conv_Cons map_Suc_upt[symmetric] add.assoc del: upt_Suc)
  then show ?case by (simp only: mem_write.simps write_at.simps Cons)
qed simp

lemma write_at_other: "x \<notin> set as \<Longrightarrow> write_at as bs m x = m x"
  by (induction as bs m rule: write_at.induct) auto

lemma write_at_nth: "distinct as \<Longrightarrow> length as = length bs \<Longrightarrow> i < length as \<Longrightarrow> write_at as bs m (as ! i) = bs ! i"
  by (induction as bs m arbitrary: i rule: write_at.induct) (auto simp: nth_Cons write_at_other split: nat.splits)

lemma copy_to_guest_spec:
  assumes "page_linear tr" "length src = n"
  shows "\<exists>k \<le> n. copy_to_guest tr m c (int n) src
            = (int k, write_at (map (\<lambda>i. the (tr (c + of_nat i))) [0..<k]) (take k src) m)
      \<and> (\<forall>i < k. tr (c + of_nat i) \<noteq> None) \<and> (k < n \<longrightarrow> tr (c + of_nat k) = None)"
  using assms(2)
proof (induction n arbitrary: c m src rule: less_induct)
  case (less n)
  let ?f = "\<lambda>i. the (tr (c + of_nat i))"
  show ?case
  proof (cases "0 < n \<and> tr c \<noteq> None")
    case False
    then show ?thesis by (cases "0 < n") (auto simp: copy_to_guest_step intro!: exI[of _ 0])
  next
    case True
    then obtain a where a: "tr c = Some a" by auto
    define k where "k = page_step c n"
    have k: "k \<le> n" "0 < k" using True page_step_bounds[where c = c and n = n] by (auto simp: k_def)
    have lin: "tr (c + of_nat i) = Some (a + of_nat i)" if "i < k" for i
      using page_linear_step[OF assms(1) a] that by (simp add: k_def)
    have len: "length (take k src) = k" using k less.prems by simp
    have "map (\<lambda>i. a + of_nat i) [0..<k] = map ?f [0..<k]" by (rule map_cong[OF refl]) (simp add: lin)
    then have m1: "mem_write m a (take k src) = write_at (map ?f [0..<k]) (take k src) m" (is "_ = ?m1")
      unfolding mem_write_at len by (simp only:)
    have "\<exists>j \<le> n - k. copy_to_guest tr ?m1 (c + of_nat k) (int (n - k)) (drop k src)
        = (int j, write_at (map (\<lambda>i. the (tr (c + of_nat k + of_nat i))) [0..<j]) (take j (drop k src)) ?m1)
        \<and> (\<forall>i < j. tr (c + of_nat k + of_nat i) \<noteq> None) \<and> (j < n - k \<longrightarrow> tr (c + of_nat k + of_nat j) = None)"
      by (rule less.IH) (use k less.prems in auto)
    then obtain j where j: "j \<le> n - k" "\<forall>i < j. tr (c + of_nat (k + i)) \<noteq> None" "j < n - k \<longrightarrow> tr (c + of_nat (k + j)) = None"
      and rest: "copy_to_guest tr ?m1 (c + of_nat k) (int (n - k)) (drop k src)
        = (int j, write_at (map (\<lambda>i. ?f (k + i)) [0..<j]) (take j (drop k src)) ?m1)"
      by (auto simp: add.assoc)
    have "map ?f [0..<k + j] = map ?f [0..<k] @ map (\<lambda>i. ?f (k + i)) [0..<j]"
      by (intro nth_equalityI) (auto simp: nth_append)
    then have "write_at (map ?f [0..<k + j]) (take (k + j) src) m
        = write_at (map (\<lambda>i. ?f (k + i)) [0..<j]) (take j (drop k src)) ?m1"
      using write_at_append[of "map ?f [0..<k]" "take k src" _ "take j (drop k src)" m] len
      by (simp add: take_add)
    then have "copy_to_guest tr m c (int n) src = (int (k + j), write_at (map ?f [0..<k + j]) (take (k + j) src) m)"
      using True a rest by (simp add: copy_to_guest_step m1 flip: k_def)
    moreover have "\<forall>i < k + j. tr (c + of_nat i) \<noteq> None"
    proof (intro allI impI)
      fix i assume "i < k + j"
      then show "tr (c + of_nat i) \<noteq> None" using lin[of i] j(2)[rule_format, of "i - k"] by (cases "i < k") auto
    qed
    ultimately show ?thesis using j(1,3) k by (intro exI[of _ "k + j"]) auto
  qed
qed

lemma copy_to_guest_all:
  assumes "page_linear tr" "\<forall>i < n. tr (c + of_nat i) = Some (f i)" "length src = n"
  shows "copy_to_guest tr m c (int n) src = (int n, write_at (map f [0..<n]) src m)"
proof -
  have "map (\<lambda>i. the (tr (c + of_nat i))) [0..<n] = map f [0..<n]" using assms(2) by auto
  then show ?thesis using copy_to_guest_spec[OF assms(1,3), of m c] assms(2,3)
    by (metis le_neq_implies_less option.distinct(1) order_refl take_all)
qed

lemma copy_from_guest_all:
  assumes "page_linear tr" "\<forall>i < n. tr (c + of_nat i) = Some (f i)"
  shows "copy_from_guest tr m c (int n) = map (\<lambda>i. m (f i)) [0..<n]"
proof -
  let ?bs = "copy_from_guest tr m c (int n)"
  note s = copy_from_guest_spec[OF assms(1) refl, where m = m and c = c and n = n]
  have "length ?bs = n" using s assms(2) by (metis le_neq_implies_less option.distinct(1))
  then show ?thesis using s assms(2) by (intro nth_equalityI) auto
qed

section \<open>Guest-physical memory\<close>

text \<open>
  What the host and the set-up of a guest provide: the host maps its physical memory at one page-aligned
  offset, and the regions of the memory map consist of whole pages with separate host memory behind them.
\<close>

definition direct_map :: "os_hooks \<Rightarrow> addr_t \<Rightarrow> bool" where
  "direct_map h off \<longleftrightarrow> paddr_to_vaddr h = Some (\<lambda>p. p + off) \<and> vaddr_to_paddr h = Some (\<lambda>v. v - off)
     \<and> unat off mod 4096 = 0"

definition region_paged :: "shadow_region \<Rightarrow> bool" where
  "region_paged r \<longleftrightarrow> unat (guest_start r) mod 4096 = 0 \<and> unat (guest_end r) mod 4096 = 0 \<and> unat (host_addr r) mod 4096 = 0"

definition backing :: "shadow_region \<Rightarrow> addr_t \<Rightarrow> addr_t" where
  "backing r a = (a - guest_start r) + host_addr r"

definition backing_disjoint :: "shadow_map \<Rightarrow> bool" where
  "backing_disjoint m \<longleftrightarrow> (\<forall>r \<in> set (sm_regions m). \<forall>r' \<in> set (sm_regions m). \<forall>a a'.
     covers r a \<and> covers r' a' \<and> backing r a = backing r' a' \<longrightarrow> r = r')"

definition paged_map :: "shadow_map \<Rightarrow> bool" where
  "paged_map m \<longleftrightarrow> map_ok m \<and> list_all region_paged (sm_regions m)"

lemma unat_same_page:
  fixes c :: addr_t
  assumes "unat c mod 4096 + i < 4096"
  shows "unat (c + of_nat i) = unat c + i"
proof -
  have "unat c div 4096 < 4503599627370496" using unat_lt64[of c] by (simp add: less_mult_imp_div_less)
  then have "unat c + i < 18446744073709551616" using assms div_mult_mod_eq[of "unat c" 4096] by linarith
  then show ?thesis by (simp add: unat_word_ariths unat_of_nat)
qed

lemma unat_mod_add: "unat (a + b) mod 4096 = unat a mod 4096" if "unat b mod 4096 = 0" for a b :: addr_t
proof -
  have "unat (a + b) mod 4096 = (unat a + unat b) mod 4096" by (simp add: unat_word_ariths mod_mod_cancel)
  also have "\<dots> = unat a mod 4096" using mod_add_right_eq[of "unat a" "unat b" 4096] that by simp
  finally show ?thesis .
qed

lemma unat_mod_diff: "unat (a - b) mod 4096 = unat a mod 4096" if "unat b mod 4096 = 0" for a b :: addr_t
  using unat_mod_add[OF that, of "a - b"] by simp

lemma covers_page:
  assumes "covers r c" "region_paged r" "unat c mod 4096 + i < 4096"
  shows "covers r (c + of_nat i)"
proof -
  have u: "unat (c + of_nat i) = unat c + i" by (rule unat_same_page[OF assms(3)])
  have "unat c < unat (guest_end r)" using assms(1) by (simp add: covers_def word_less_nat_alt)
  moreover have e: "unat (guest_end r) = unat (guest_end r) div 4096 * 4096"
    using assms(2) div_mult_mod_eq[of "unat (guest_end r)" 4096] unfolding region_paged_def by linarith
  ultimately have "unat c div 4096 < unat (guest_end r) div 4096" using less_mult_imp_div_less by metis
  then have "unat c + i < unat (guest_end r)"
    using assms(3) div_mult_mod_eq[of "unat c" 4096] e by linarith
  then show ?thesis using assms(1) u by (auto simp: covers_def word_less_nat_alt word_le_nat_alt)
qed

lemma guest_pa_to_host_pa_region:
  "guest_pa_to_host_pa info a = (case get_shadow_region_by_addr (mem_map info) a of
     None \<Rightarrow> None | Some r \<Rightarrow> if host_type r = HOST_REGION_PHYSICAL_MEMORY then Some (backing r a) else None)"
  by (simp add: guest_pa_to_host_pa_def lookup_shadow_map_addr_def backing_def split: option.split host_region_type.split)

lemma guest_pa_to_host_pa_iff:
  assumes "map_ok (mem_map info)"
  shows "guest_pa_to_host_pa info a = Some p \<longleftrightarrow>
    (\<exists>r \<in> set (sm_regions (mem_map info)). covers r a \<and> host_type r = HOST_REGION_PHYSICAL_MEMORY \<and> p = backing r a)"
proof -
  have "get_shadow_region_by_addr (mem_map info) a = Some r \<longleftrightarrow> r \<in> set (sm_regions (mem_map info)) \<and> covers r a" for r
    using assms region_at_addr_iff by (simp add: get_shadow_region_by_addr_def map_ok_def)
  moreover have "guest_pa_to_host_pa info a = Some p \<longleftrightarrow> (\<exists>r. get_shadow_region_by_addr (mem_map info) a = Some r
      \<and> host_type r = HOST_REGION_PHYSICAL_MEMORY \<and> p = backing r a)"
    by (auto simp: guest_pa_to_host_pa_region split: option.split)
  ultimately show ?thesis by blast
qed

lemma guest_pa_to_host_va_iff:
  assumes "map_ok (mem_map info)" "direct_map h off"
  shows "guest_pa_to_host_va h info a = Some v \<longleftrightarrow>
    (\<exists>r \<in> set (sm_regions (mem_map info)). covers r a \<and> host_type r = HOST_REGION_PHYSICAL_MEMORY
       \<and> v = backing r a + off \<and> v \<noteq> 0)"
proof -
  have "guest_pa_to_host_va h info a = Some v \<longleftrightarrow> (\<exists>p. guest_pa_to_host_pa info a = Some p \<and> v = p + off \<and> v \<noteq> 0)"
    using assms(2) by (auto simp: guest_pa_to_host_va_def host_pa_to_host_va_def direct_map_def bind_eq_Some_conv)
  then show ?thesis unfolding guest_pa_to_host_pa_iff[OF assms(1)] by blast
qed

lemma guest_va_offset:
  assumes "paged_map (mem_map info)" "direct_map h off" "guest_pa_to_host_va h info c = Some a"
  shows "unat a mod 4096 = unat c mod 4096"
proof -
  have "map_ok (mem_map info)" using assms(1) by (simp add: paged_map_def)
  then obtain r where r: "r \<in> set (sm_regions (mem_map info))" "a = backing r c + off"
    using guest_pa_to_host_va_iff[OF _ assms(2), of info c a] assms(3) by auto
  have "region_paged r" using assms(1) r(1) by (auto simp: paged_map_def list_all_iff)
  then show ?thesis
    using assms(2) by (simp add: r(2) backing_def unat_mod_add unat_mod_diff region_paged_def direct_map_def)
qed

lemma page_linear_guest_pa:
  assumes "paged_map (mem_map info)" "direct_map h off"
  shows "page_linear (guest_pa_to_host_va h info)"
  unfolding page_linear_def
proof (intro allI impI, elim conjE)
  fix c a i assume a: "guest_pa_to_host_va h info c = Some a" and i: "unat c mod 4096 + i < 4096"
  note iff = guest_pa_to_host_va_iff[OF _ assms(2)]
  have ok: "map_ok (mem_map info)" using assms(1) by (simp add: paged_map_def)
  obtain r where r: "r \<in> set (sm_regions (mem_map info))" "covers r c" "host_type r = HOST_REGION_PHYSICAL_MEMORY"
    "a = backing r c + off" "a \<noteq> 0" using a iff[OF ok] by blast
  have rp: "region_paged r" using assms(1) r(1) by (auto simp: paged_map_def list_all_iff)
  have "a + of_nat i \<noteq> 0"
  proof
    assume "a + of_nat i = 0"
    then have "unat a + i = 0" using unat_same_page[of a i] guest_va_offset[OF assms a] i by simp
    then have "unat a = 0" by simp
    then show False using r(5) by (simp only: unat_eq_zero)
  qed
  moreover have "a + of_nat i = backing r (c + of_nat i) + off" by (simp add: r(4) backing_def)
  ultimately show "guest_pa_to_host_va h info (c + of_nat i) = Some (a + of_nat i)"
    using iff[OF ok] r(1,3) covers_page[OF r(2) rp i] by blast
qed

lemma guest_pa_to_host_va_inj:
  assumes "map_ok (mem_map info)" "direct_map h off" "backing_disjoint (mem_map info)"
    "guest_pa_to_host_va h info a = Some v" "guest_pa_to_host_va h info b = Some v"
  shows "a = b"
proof -
  obtain r where "r \<in> set (sm_regions (mem_map info))" "covers r a" "v = backing r a + off"
    using assms(4) guest_pa_to_host_va_iff[OF assms(1,2), of a v] by auto
  moreover obtain r' where "r' \<in> set (sm_regions (mem_map info))" "covers r' b" "v = backing r' b + off"
    using assms(5) guest_pa_to_host_va_iff[OF assms(1,2), of b v] by auto
  moreover from calculation have "r = r'" using assms(3) by (auto simp: backing_disjoint_def)
  ultimately show ?thesis by (simp add: backing_def)
qed

section \<open>Properties\<close>

text \<open>C31: The distance to the page edge, which the code computes from a 32-bit page address and a 64-bit cursor
  and stores in a signed 32-bit variable, is the right one for every 64-bit address, and so each step of
  a copy makes progress and stays inside one page.\<close>

theorem dist_to_pg_edge_exact:
  "dist_to_pg_edge cursor = int (4096 - unat cursor mod 4096) \<and> 1 \<le> dist_to_pg_edge cursor \<and> dist_to_pg_edge cursor \<le> 4096"
  using dist_to_pg_edge_nat[of cursor] dist_to_pg_edge_bounds[of cursor] by blast

definition demo_hooks :: os_hooks where
  "demo_hooks = \<lparr>paddr_to_vaddr = Some (\<lambda>p. p + 0x100000), vaddr_to_paddr = Some (\<lambda>v. v - 0x100000)\<rparr>"

lemma demo_hooks_direct: "direct_map demo_hooks 0x100000"
  by (simp add: demo_hooks_def direct_map_def)

text \<open>A guest with 16 KB of memory at host-physical 0x50000.\<close>

definition demo_guest_map :: shadow_map where
  "demo_guest_map = \<lparr>num_regions = 1, sm_regions = [demo_region 0 0x4000 0x50000]\<rparr>"

definition demo_segment :: v3_segment where
  "demo_segment = \<lparr>seg_selector = 0, seg_limit = 0xffffffff, seg_base = 0, seg_long_mode = False\<rparr>"

definition demo_guest :: "unit guest_info" where
  "demo_guest = \<lparr>mem_map = demo_guest_map, mem_hooks = (\<lambda>_. None), rip = 0, intr_state = demo_intr_state,
     shdw_pg_mode = SHADOW_PAGING,
     shdw_pg_state = \<lparr>guest_cr3 = 0, guest_cr0 = 0, shadow_cr3 = 0, cr3_cache = None, cached_ptes = None, cached_cr3 = 0\<rparr>,
     cpu_mode = PROTECTED, mem_mode = PHYSICAL_MEM, direct_map_pt = 0, vm_regs = 0x90000,
     ctrl_regs = \<lparr>cr0 = 0, cr2 = 0, cr3 = 0, cr4 = 0, cr8 = 0, rflags = 0, efer = 0\<rparr>,
     segments = \<lparr>cs_seg = demo_segment, ds_seg = demo_segment, es_seg = demo_segment, fs_seg = demo_segment,
       gs_seg = demo_segment, ss_seg = demo_segment\<rparr>, host_mem = (\<lambda>_. 7)\<rparr>"

lemma demo_guest_sel [simp]: "mem_map demo_guest = demo_guest_map" "host_mem demo_guest = (\<lambda>_. 7)"
  by (simp_all add: demo_guest_def)

lemma demo_guest_map_paged: "paged_map demo_guest_map" "backing_disjoint demo_guest_map"
  by (simp_all add: paged_map_def map_ok_def demo_guest_map_def demo_region_def init_shadow_region_def region_paged_def
      region_defs backing_disjoint_def)

lemma demo_guest_pa: "a < 0x4000 \<Longrightarrow> guest_pa_to_host_va demo_hooks demo_guest a = Some (a + 0x150000)"
  by (auto simp: guest_pa_to_host_va_def host_pa_to_host_va_def guest_pa_to_host_pa_region get_shadow_region_by_addr_def
      demo_hooks_def demo_guest_map_def demo_region_def init_shadow_region_def backing_def add_eq_0_iff)

text \<open>C22: A read of guest-physical memory returns the bytes of the host memory behind the guest addresses,
  in order and across page boundaries, up to the first address that is not backed by memory, and
  reports how many it read.\<close>

theorem read_guest_pa_memory_spec:
  assumes "paged_map (mem_map info)" "direct_map h off"
  shows "\<exists>bs. read_guest_pa_memory h info gpa (int n) = (int (length bs), bs) \<and> length bs \<le> n
    \<and> (\<forall>i < length bs. \<exists>a. guest_pa_to_host_va h info (gpa + of_nat i) = Some a \<and> bs ! i = host_mem info a)
    \<and> (length bs < n \<longrightarrow> guest_pa_to_host_va h info (gpa + of_nat (length bs)) = None)"
  using copy_from_guest_spec[OF page_linear_guest_pa[OF assms] refl, of "host_mem info" gpa n]
  unfolding read_guest_pa_memory_def Let_def by blast

lemma read_guest_pa_memory_spec_witness:
  "\<exists>bs. read_guest_pa_memory demo_hooks demo_guest 0x3ffe 5 = (int (length bs), bs) \<and> (\<forall>i < length bs. bs ! i = 7)"
  using read_guest_pa_memory_spec[OF _ demo_hooks_direct, of demo_guest "0x3ffe" 5] demo_guest_map_paged(1) by fastforce

text \<open>C5: What is written to guest-physical memory is what a read returns, across page boundaries and region
  boundaries, and host memory that does not back the written range is left alone.\<close>

theorem write_read_guest_pa:
  assumes "paged_map (mem_map info)" "direct_map h off" "backing_disjoint (mem_map info)" "length src < 2 ^ 31"
    and backed: "\<forall>i < length src. guest_pa_to_host_va h info (gpa + of_nat i) \<noteq> None"
    and w: "write_guest_pa_memory h info gpa (int (length src)) src = (ret, info')"
  shows "ret = int (length src) \<and> read_guest_pa_memory h info' gpa (int (length src)) = (ret, src)
    \<and> (\<forall>x. (\<forall>i < length src. guest_pa_to_host_va h info (gpa + of_nat i) \<noteq> Some x) \<longrightarrow> host_mem info' x = host_mem info x)"
proof -
  let ?n = "length src" and ?f = "\<lambda>i. the (guest_pa_to_host_va h info (gpa + of_nat i))"
  note lin = page_linear_guest_pa[OF assms(1,2)]
  have f: "\<forall>i < ?n. guest_pa_to_host_va h info (gpa + of_nat i) = Some (?f i)" using backed by simp
  have cp: "copy_to_guest (guest_pa_to_host_va h info) (host_mem info) gpa (int ?n) src
      = (int ?n, write_at (map ?f [0..<?n]) src (host_mem info))" (is "_ = (_, ?m)")
    by (rule copy_to_guest_all[OF lin f refl])
  have r: "ret = int ?n" "info' = info\<lparr>host_mem := ?m\<rparr>" using w cp by (simp_all add: write_guest_pa_memory_def)
  have tr: "guest_pa_to_host_va h info' = guest_pa_to_host_va h info"
    by (simp add: fun_eq_iff r(2) guest_pa_to_host_va_def guest_pa_to_host_pa_def)
  have "inj_on ?f {0..<?n}"
  proof (rule inj_onI)
    fix i j assume ij: "i \<in> {0..<?n}" "j \<in> {0..<?n}" "?f i = ?f j"
    have "guest_pa_to_host_va h info (gpa + of_nat i) = Some (?f i)" using f ij(1) by simp
    moreover have "guest_pa_to_host_va h info (gpa + of_nat j) = Some (?f i)" unfolding ij(3) using f ij(2) by simp
    ultimately have "gpa + of_nat i = gpa + of_nat j"
      using guest_pa_to_host_va_inj[OF _ assms(2,3)] assms(1) unfolding paged_map_def by blast
    then have "unat (of_nat i :: addr_t) = unat (of_nat j :: addr_t)" by simp
    then show "i = j" using ij assms(4) by (simp add: unat_of_nat)
  qed
  then have d: "distinct (map ?f [0..<?n])" by (simp add: distinct_map)
  have "?m (?f i) = src ! i" if "i < ?n" for i
    using write_at_nth[OF d, of src i "host_mem info"] that by simp
  then have "map (\<lambda>i. ?m (?f i)) [0..<?n] = src" by (intro nth_equalityI) auto
  moreover have "host_mem info' = ?m" by (simp add: r(2))
  ultimately have rd: "read_guest_pa_memory h info' gpa (int ?n) = (ret, src)"
    using copy_from_guest_all[OF lin f, of ?m] by (simp add: read_guest_pa_memory_def tr r(1))
  have "host_mem info' x = host_mem info x" if "\<forall>i < ?n. guest_pa_to_host_va h info (gpa + of_nat i) \<noteq> Some x" for x
  proof -
    have "?f i \<noteq> x" if "i < ?n" for i using f that \<open>\<forall>i < ?n. _ \<noteq> Some x\<close> by metis
    then have "x \<notin> set (map ?f [0..<?n])" unfolding set_map set_upt image_iff by (metis atLeastLessThan_iff)
    then have "?m x = host_mem info x" by (rule write_at_other)
    then show ?thesis by (simp add: r(2))
  qed
  with r(1) rd show ?thesis by blast
qed

lemma write_read_guest_pa_witness:
  "read_guest_pa_memory demo_hooks (snd (write_guest_pa_memory demo_hooks demo_guest 0x1fff 3 [1, 2, 3])) 0x1fff 3 = (3, [1, 2, 3])"
proof -
  obtain ret info' where w: "write_guest_pa_memory demo_hooks demo_guest 0x1fff 3 [1, 2, 3] = (ret, info')"
    by (cases "write_guest_pa_memory demo_hooks demo_guest 0x1fff 3 [1, 2, 3]")
  have "\<forall>i < 3. guest_pa_to_host_va demo_hooks demo_guest (0x1fff + of_nat i) \<noteq> None"
    by (auto simp: less_Suc_eq numeral_3_eq_3 demo_guest_pa)
  then show ?thesis
    using write_read_guest_pa[OF _ demo_hooks_direct, of demo_guest "[1, 2, 3]" "0x1fff" ret info'] demo_guest_map_paged w
    by simp
qed

section \<open>Guest page tables\<close>

text \<open>Guest-physical memory as the guest sees it, and the physical address of its page directory.\<close>

definition guest_phys_mem :: "os_hooks \<Rightarrow> 'c guest_info \<Rightarrow> mem" where
  "guest_phys_mem h info a = (case guest_pa_to_host_va h info a of Some v \<Rightarrow> host_mem info v | None \<Rightarrow> 0)"

definition guest_dir :: "'c guest_info \<Rightarrow> addr_t" where
  "guest_dir info = (case shdw_pg_mode info of SHADOW_PAGING \<Rightarrow> guest_cr3 (shdw_pg_state info)
     | NESTED_PAGING \<Rightarrow> cr3 (ctrl_regs info)) AND 0xfffff000"

lemma load32_guest:
  assumes "page_linear (guest_pa_to_host_va h info)" "unat b mod 4096 = 0" "guest_pa_to_host_va h info b = Some v" "k < 1024"
  shows "load32 (guest_phys_mem h info) (b + 4 * of_nat k) = load32 (host_mem info) (v + 4 * of_nat k)"
proof -
  have "guest_pa_to_host_va h info (b + of_nat i) = Some (v + of_nat i)" if "i < 4096" for i
    using assms(1-3) that by (simp add: page_linear_def)
  from this[of "4 * k"] this[of "4 * k + 1"] this[of "4 * k + 2"] this[of "4 * k + 3"]
  show ?thesis using assms(4) by (simp add: load32_def guest_phys_mem_def add.assoc add.commute add.left_commute)
qed

lemma guest_dir_aligned: "unat (guest_dir info) mod 4096 = 0"
proof -
  have "take_bit 12 (guest_dir info) = 0"
    unfolding guest_dir_def take_bit_and by simp
  then have "unat (take_bit 12 (guest_dir info)) = 0" by (simp only: unsigned_0)
  then show ?thesis unfolding unsigned_take_bit_eq unfolding take_bit_eq_mod by simp
qed

text \<open>C4: For a guest that runs in protected mode with paging on, the translation of a guest virtual address
  is the two-level page walk of the processor on the guest's own physical memory: it returns the address
  the walk returns and fails exactly when the walk meets an entry that is not present. The directory entry
  is below 2 GB.\<close>

theorem guest_va_to_guest_pa_x86:
  assumes "paged_map (mem_map info)" "direct_map h off" "mem_mode info = VIRTUAL_MEM" "cpu_mode info = PROTECTED"
    and dir: "guest_pa_to_host_va h info (guest_dir info) \<noteq> None"
    and pde: "pde = x86_pde (guest_phys_mem h info) (guest_dir info) (unat va)" "pde < 2 ^ 31"
    and tab: "odd pde \<and> even (pde div 2 ^ 7) \<longrightarrow> guest_pa_to_host_va h info (of_nat (pde div 2 ^ 12 * 2 ^ 12)) \<noteq> None"
  shows "guest_va_to_guest_pa h info va = map_option of_nat (x86_walk (guest_phys_mem h info) (guest_dir info) (unat va))"
proof -
  note lin = page_linear_guest_pa[OF assms(1,2)]
  obtain d where d: "guest_pa_to_host_va h info (guest_dir info) = Some d" using dir by auto
  have pd: "V3_PAddr h (CR3_TO_PDE32 (V3_VAddr h) (case shdw_pg_mode info of SHADOW_PAGING \<Rightarrow> guest_cr3 (shdw_pg_state info)
      | NESTED_PAGING \<Rightarrow> cr3 (ctrl_regs info))) = guest_dir info"
    using assms(2) by (simp add: V3_PAddr_def V3_VAddr_def CR3_TO_PDE32_def direct_map_def guest_dir_def)
  have pe: "x86_pde (host_mem info) d (unat va) = pde"
    unfolding pde(1) x86_pde_def by (subst load32_guest[OF lin guest_dir_aligned d]) simp_all
  have look: "pde32_lookup (host_mem info) d va =
     (if even pde then (PDE32_ENTRY_NOT_PRESENT, 0)
      else if odd (pde div 2 ^ 7) then (PDE32_ENTRY_LARGE_PAGE, of_nat (pde div 2 ^ 22 * 2 ^ 22 + unat va mod 2 ^ 22))
      else (PDE32_ENTRY_PTE32, of_nat (pde div 2 ^ 12 * 2 ^ 12)))"
    using pde32_lookup_nat[of "host_mem info" d va] pde(2) unfolding pe Let_def by blast
  show ?thesis
  proof (cases "odd pde \<and> even (pde div 2 ^ 7)")
    case False
    then show ?thesis using assms(3,4) d
      unfolding guest_va_to_guest_pa_def pd x86_walk_def pde(1)[symmetric] by (auto simp: Let_def look)
  next
    case True
    let ?b = "of_nat (pde div 2 ^ 12 * 2 ^ 12) :: addr_t" and ?k = "unat va div 2 ^ 12 mod 2 ^ 10"
    obtain t where t: "guest_pa_to_host_va h info ?b = Some t" using tab True by auto
    have "pde div 2 ^ 12 * 2 ^ 12 < 2 ^ 64" using pde(2) base_le[of pde "2 ^ 12"] by simp
    then have "unat ?b = pde div 2 ^ 12 * 2 ^ 12" by (rule unat_of_nat64)
    then have "unat ?b mod 4096 = 0" by (simp only:) simp
    then have pt: "load32 (guest_phys_mem h info) (?b + 4 * of_nat ?k) = load32 (host_mem info) (t + 4 * of_nat ?k)"
      by (intro load32_guest[OF lin _ t]) simp_all
    show ?thesis using True assms(3,4) d t
      unfolding guest_va_to_guest_pa_def pd x86_walk_def pde(1)[symmetric]
      by (auto simp: Let_def look pte32_lookup_nat pt[simplified])
  qed
qed

text \<open>A guest with paging on: directory at 0x1000, page table at 0x2000, one page mapped.\<close>

definition demo_paged_guest :: "unit guest_info" where
  "demo_paged_guest = demo_guest\<lparr>mem_mode := VIRTUAL_MEM,
     shdw_pg_state := (shdw_pg_state demo_guest)\<lparr>guest_cr3 := 0x1000\<rparr>,
     host_mem := store32 (store32 (\<lambda>_. 0) 0x151004 0x2007) 0x15200c 0x3007\<rparr>"

lemma demo_paged_guest_pa: "guest_pa_to_host_va h demo_paged_guest = guest_pa_to_host_va h demo_guest"
  by (simp add: fun_eq_iff demo_paged_guest_def guest_pa_to_host_va_def guest_pa_to_host_pa_def)

lemma demo_paged_guest_sel:
  "mem_map demo_paged_guest = demo_guest_map" "mem_mode demo_paged_guest = VIRTUAL_MEM" "cpu_mode demo_paged_guest = PROTECTED"
  "guest_dir demo_paged_guest = 0x1000"
  by (simp_all add: demo_paged_guest_def demo_guest_def guest_dir_def)

lemma demo_paged_guest_load:
  "load32 (guest_phys_mem demo_hooks demo_paged_guest) 0x1004 = 0x2007"
  "load32 (guest_phys_mem demo_hooks demo_paged_guest) 0x200c = 0x3007"
proof -
  have lin: "page_linear (guest_pa_to_host_va demo_hooks demo_paged_guest)"
    by (rule page_linear_guest_pa[OF _ demo_hooks_direct]) (simp add: demo_paged_guest_sel demo_guest_map_paged)
  show "load32 (guest_phys_mem demo_hooks demo_paged_guest) 0x1004 = 0x2007"
    using load32_guest[OF lin, of "0x1000" "0x151000" 1]
    by (simp add: demo_paged_guest_pa demo_guest_pa) (simp add: demo_paged_guest_def mem_simps disjoint32_def)
  show "load32 (guest_phys_mem demo_hooks demo_paged_guest) 0x200c = 0x3007"
    using load32_guest[OF lin, of "0x2000" "0x152000" 3]
    by (simp add: demo_paged_guest_pa demo_guest_pa) (simp add: demo_paged_guest_def mem_simps disjoint32_def)
qed

lemma guest_va_to_guest_pa_x86_witness: "guest_va_to_guest_pa demo_hooks demo_paged_guest 0x403abc = Some 0x3abc"
  using guest_va_to_guest_pa_x86[OF _ demo_hooks_direct, of demo_paged_guest "0x2007" "0x403abc"] demo_guest_map_paged(1)
  by (simp add: demo_paged_guest_sel demo_paged_guest_pa demo_guest_pa x86_pde_def x86_walk_def Let_def demo_paged_guest_load)

end
