(* ===== verification/V3_Shadow_Paging.thy ===== *)
theory V3_Shadow_Paging
  imports V3_Guest_Mem
begin

text \<open>
  Shadow paging (\<^verbatim>\<open>vmm_shadow_paging.c\<close>): the page tables the processor uses while the guest runs are filled
  on demand from the guest's own tables. The handlers work on one host memory, which holds the shadow
  tables and, through the memory map, the guest's tables; every field of an entry is read and written
  where the code does it. \<open>None\<close> is undefined behaviour: a search in a table that was never created, or a
  hooked page without a hook. The instruction emulator that hooked pages call is an argument.
\<close>

section \<open>Fields of an entry in memory\<close>

definition get_flag :: "nat \<Rightarrow> addr_t \<Rightarrow> mem \<Rightarrow> bool" where
  "get_flag i a m = bf_flag i (load32 m a)"

definition put_flag :: "nat \<Rightarrow> bool \<Rightarrow> addr_t \<Rightarrow> mem \<Rightarrow> mem" where
  "put_flag i b a m = store32 m a (bf_put i b (load32 m a))"

definition put_vmm_info :: "uint_t \<Rightarrow> addr_t \<Rightarrow> mem \<Rightarrow> mem" where
  "put_vmm_info v a m = store32 m a (bf_set 9 3 v (load32 m a))"

definition put_base_addr :: "uint_t \<Rightarrow> addr_t \<Rightarrow> mem \<Rightarrow> mem" where
  "put_base_addr v a m = store32 m a (bf_set 12 20 v (load32 m a))"

text \<open>Positions of the flags.\<close>

abbreviation (input) "F_present \<equiv> 0 :: nat"
abbreviation (input) "F_writable \<equiv> 1 :: nat"
abbreviation (input) "F_user_page \<equiv> 2 :: nat"
abbreviation (input) "F_write_through \<equiv> 3 :: nat"
abbreviation (input) "F_cache_disable \<equiv> 4 :: nat"
abbreviation (input) "F_accessed \<equiv> 5 :: nat"
abbreviation (input) "F_dirty \<equiv> 6 :: nat"
abbreviation (input) "F_large_page \<equiv> 7 :: nat"
abbreviation (input) "F_global_page \<equiv> 8 :: nat"

section \<open>The cache of guest page tables\<close>

definition pte_hash_fn :: "addr_t \<Rightarrow> uint_t" where "pte_hash_fn key = ucast (hash_long key 32)"
definition pte_equals :: "addr_t \<Rightarrow> addr_t \<Rightarrow> bool" where "pte_equals key1 key2 = (key1 = key2)"
definition cr3_hash_fn :: "addr_t \<Rightarrow> uint_t" where "cr3_hash_fn key = ucast (hash_long key 32)"
definition cr3_equals :: "addr_t \<Rightarrow> addr_t \<Rightarrow> bool" where "cr3_equals key1 key2 = (key1 = key2)"

definition find_pte_map :: "hashtable \<Rightarrow> addr_t \<Rightarrow> addr_t" where
  "find_pte_map h k = hashtable_search h k"

definition add_pte_map :: "hashtable \<Rightarrow> addr_t \<Rightarrow> addr_t \<Rightarrow> alloc_outcome \<Rightarrow> hashtable option" where
  "add_pte_map h key value a = table_insert a key value h"

text \<open>\<open>create_hashtable\<close> takes the outcomes of its two allocations.\<close>

definition v3_init_shadow_page_state :: "'c guest_info \<Rightarrow> bool \<Rightarrow> bool \<Rightarrow> int \<times> 'c guest_info" where
  "v3_init_shadow_page_state info htable_ok table_ok =
     (0, info\<lparr>shdw_pg_state := (shdw_pg_state info)\<lparr>guest_cr3 := 0, shadow_cr3 := 0,
           cr3_cache := create_hashtable 0 cr3_hash_fn cr3_equals htable_ok table_ok,
           cached_cr3 := 0, cached_ptes := None\<rparr>\<rparr>)"

text \<open>The loop over the directory; \<open>alloc i\<close> is the outcome of the allocations of the insertion for entry \<open>i\<close>.\<close>

fun cache_pt_loop ::
  "os_hooks \<Rightarrow> 'c guest_info \<Rightarrow> addr_t \<Rightarrow> (nat \<Rightarrow> alloc_outcome) \<Rightarrow> nat list \<Rightarrow> hashtable \<Rightarrow> (int \<times> hashtable) option" where
  "cache_pt_loop h info tmp_pde alloc [] pte_cache = Some (0, pte_cache)"
| "cache_pt_loop h info tmp_pde alloc (i # is) pte_cache =
     (let entry = load32 (host_mem info) (tmp_pde + 4 * of_nat i)
      in if pt_present entry \<and> \<not> pde_large_page entry
         then (case guest_pa_to_host_va h info (scast (PDE32_T_ADDR entry)) of
                 None \<Rightarrow> Some (-1, pte_cache)
               | Some pte_host_addr \<Rightarrow>
                   (case add_pte_map pte_cache (scast (PDE32_T_ADDR entry)) pte_host_addr (alloc i) of
                      None \<Rightarrow> None
                    | Some pte_cache' \<Rightarrow> cache_pt_loop h info tmp_pde alloc is pte_cache'))
         else cache_pt_loop h info tmp_pde alloc is pte_cache)"

text \<open>The old table is destroyed before the new one is created; what is freed is no part of the state.\<close>

definition v3_cache_page_tables32 ::
  "os_hooks \<Rightarrow> 'c guest_info \<Rightarrow> addr_t \<Rightarrow> bool \<Rightarrow> bool \<Rightarrow> alloc_outcome \<Rightarrow> (nat \<Rightarrow> alloc_outcome)
    \<Rightarrow> (int \<times> 'c guest_info) option" where
  "v3_cache_page_tables32 h info pde htable_ok table_ok alloc_pde alloc =
     (if pde = cached_cr3 (shdw_pg_state info) then Some (1, info)
      else let pte_cache = create_hashtable 0 pte_hash_fn pte_equals htable_ok table_ok;
               with_cache = (\<lambda>c. info\<lparr>shdw_pg_state := (shdw_pg_state info)\<lparr>cached_cr3 := pde, cached_ptes := c\<rparr>\<rparr>)
           in (case guest_pa_to_host_va h info pde of
                 None \<Rightarrow> Some (-1, with_cache pte_cache)
               | Some pde_host_addr \<Rightarrow>
                   (case Option.bind pte_cache (\<lambda>c. add_pte_map c pde pde_host_addr alloc_pde) of
                      None \<Rightarrow> None
                    | Some c1 \<Rightarrow>
                        (case cache_pt_loop h info pde_host_addr alloc [0..<MAX_PDE32_ENTRIES] c1 of
                           None \<Rightarrow> None
                         | Some (ret, c2) \<Rightarrow> Some (ret, with_cache (Some c2))))))"

text \<open>Reads the old and writes the new entry of a 4 KB page; the pointer to the table is the entry's physical
  address.\<close>

definition v3_replace_shdw_page32 ::
  "os_hooks \<Rightarrow> 'c guest_info \<Rightarrow> addr_t \<Rightarrow> uint_t \<Rightarrow> (int \<times> uint_t option \<times> 'c guest_info)" where
  "v3_replace_shdw_page32 h info location new_page =
     (let m = host_mem info;
          shadow_pd = CR3_TO_PDE32 (V3_VAddr h) (shadow_cr3 (shdw_pg_state info));
          shadow_pde = load32 m (pde_at shadow_pd location)
      in if \<not> pde_large_page shadow_pde
         then let shadow_pte = pte_at (scast (PDE32_T_ADDR shadow_pde)) location
              in (0, Some (load32 m shadow_pte), info\<lparr>host_mem := store32 m shadow_pte new_page\<rparr>)
         else (-1, None, info))"

section \<open>Fault handling\<close>

definition zero_page :: "addr_t \<Rightarrow> mem \<Rightarrow> mem" where
  "zero_page p m = (\<lambda>a. if unat (a - p) < PAGE_SIZE then 0 else m a)"

text \<open>\<open>page\<close> is the page \<open>V3_AllocPages\<close> returns.\<close>

definition v3_create_new_shadow_pt32 :: "os_hooks \<Rightarrow> addr_t \<Rightarrow> mem \<Rightarrow> addr_t \<times> mem" where
  "v3_create_new_shadow_pt32 h page m = (V3_VAddr h page, zero_page (V3_VAddr h page) m)"

definition inject_guest_pf :: "'c guest_info \<Rightarrow> addr_t \<Rightarrow> pf_error \<Rightarrow> 'c guest_info" where
  "inject_guest_pf info fault_addr error_code =
     info\<lparr>ctrl_regs := (ctrl_regs info)\<lparr>cr2 := fault_addr\<rparr>,
          intr_state := snd (v3_raise_exception_with_error (intr_state info) PF_EXCEPTION (pf_error_word error_code))\<rparr>"

definition is_guest_pf :: "pt_access_status \<Rightarrow> pt_access_status \<Rightarrow> bool" where
  "is_guest_pf guest_access shadow_access \<longleftrightarrow>
     guest_access \<noteq> PT_ACCESS_OK
     \<and> (shadow_access \<noteq> PT_ENTRY_NOT_PRESENT \<and> guest_access \<noteq> PT_ENTRY_NOT_PRESENT
        \<or> shadow_access = PT_ENTRY_NOT_PRESENT \<and> guest_access = PT_ENTRY_NOT_PRESENT)"

definition raise_mc :: "'c guest_info \<Rightarrow> 'c guest_info" where
  "raise_mc info = info\<lparr>intr_state := snd (v3_raise_exception (intr_state info) MC_EXCEPTION)\<rparr>"

text \<open>Is the page a guest page table that is in the cache?\<close>

definition in_pte_cache :: "'c guest_info \<Rightarrow> addr_t \<Rightarrow> bool option" where
  "in_pte_cache info guest_pa =
     map_option (\<lambda>t. find_pte_map t (ucast (PT32_PAGE_ADDR guest_pa)) \<noteq> 0) (cached_ptes (shdw_pg_state info))"

definition special_fault ::
  "'c guest_info emulator \<Rightarrow> 'c guest_info emulator \<Rightarrow> 'c guest_info \<Rightarrow> addr_t \<Rightarrow> addr_t \<Rightarrow> pf_error
    \<Rightarrow> (int \<times> 'c guest_info) option" where
  "special_fault ew er info fault_addr guest_pa error_code =
     map_option (\<lambda>(ret, info'). (if ret = -1 then -1 else 0, info'))
       (handle_special_page_fault ew er info info fault_addr guest_pa (pf_write error_code))"

text \<open>The entry a large page gets: \<open>is_pt\<close> if the page holds a guest page table.\<close>

definition fill_large_pte :: "addr_t \<Rightarrow> addr_t \<Rightarrow> bool \<Rightarrow> mem \<Rightarrow> mem" where
  "fill_large_pte shadow_pte shadow_pa is_pt m =
     (let m = put_base_addr (PT32_BASE_ADDR shadow_pa) shadow_pte m;
          m = put_flag F_present True shadow_pte m;
          m = put_flag F_user_page True shadow_pte m;
          m = (if is_pt then put_flag F_writable False shadow_pte (put_vmm_info PT32_GUEST_PT shadow_pte m)
               else put_flag F_writable True shadow_pte m);
          m = put_flag F_write_through False shadow_pte m;
          m = put_flag F_cache_disable False shadow_pte m
      in put_flag F_global_page False shadow_pte m)"

definition handle_large_pagefault32 ::
  "'c guest_info emulator \<Rightarrow> 'c guest_info emulator \<Rightarrow> 'c guest_info \<Rightarrow> addr_t \<Rightarrow> pf_error \<Rightarrow> addr_t \<Rightarrow> addr_t
    \<Rightarrow> (int \<times> 'c guest_info) option" where
  "handle_large_pagefault32 ew er info fault_addr error_code shadow_pt large_guest_pde =
     (let m = host_mem info;
          shadow_pte_access = can_access_pte32 m shadow_pt fault_addr error_code;
          shadow_pte = pte_at shadow_pt fault_addr
      in if shadow_pte_access = PT_ACCESS_OK then Some (0, info)
         else if shadow_pte_access = PT_ENTRY_NOT_PRESENT
         then let guest_fault_pa = ucast (PDE32_4MB_T_ADDR (load32 m large_guest_pde) + PD32_4MB_PAGE_OFFSET fault_addr);
                  host_page_type = get_shadow_addr_type info guest_fault_pa
              in if host_page_type = HOST_REGION_INVALID then Some (0, raise_mc info)
                 else if host_page_type = HOST_REGION_PHYSICAL_MEMORY
                 then map_option (\<lambda>is_pt. (0, info\<lparr>host_mem :=
                          fill_large_pte shadow_pte (get_shadow_addr info guest_fault_pa) is_pt m\<rparr>))
                        (in_pte_cache info guest_fault_pa)
                 else special_fault ew er info fault_addr guest_fault_pa error_code
         else if shadow_pte_access = PT_WRITE_ERROR \<and> pt_vmm_info (load32 m shadow_pte) = PT32_GUEST_PT
         then Some (0, info\<lparr>shdw_pg_state := (shdw_pg_state info)\<lparr>cached_cr3 := 0\<rparr>,
                            host_mem := put_flag F_writable True shadow_pte m\<rparr>)
         else Some (-1, info))"

text \<open>The entry a 4 KB page gets; the second result tells whether the cache of guest tables is dropped.\<close>

definition fill_pte :: "addr_t \<Rightarrow> addr_t \<Rightarrow> addr_t \<Rightarrow> pf_error \<Rightarrow> bool \<Rightarrow> mem \<Rightarrow> mem \<times> bool" where
  "fill_pte shadow_pte guest_pte shadow_pa error_code is_pt m =
     (let m = put_base_addr (PT32_BASE_ADDR shadow_pa) shadow_pte m;
          m = put_flag F_present (get_flag F_present guest_pte m) shadow_pte m;
          m = put_flag F_user_page (get_flag F_user_page guest_pte m) shadow_pte m;
          m = put_flag F_write_through False shadow_pte m;
          m = put_flag F_cache_disable False shadow_pte m;
          m = put_flag F_global_page False shadow_pte m;
          m = put_flag F_accessed True guest_pte m;
          m = (if is_pt then put_vmm_info PT32_GUEST_PT shadow_pte m else m)
      in if get_flag F_dirty guest_pte m
         then (put_flag F_writable (get_flag F_writable guest_pte m) shadow_pte m, False)
         else if pf_write error_code
         then let m = put_flag F_writable (get_flag F_writable guest_pte m) shadow_pte m;
                  m = put_flag F_dirty True guest_pte m
              in (m, pt_vmm_info (load32 m shadow_pte) = PT32_GUEST_PT)
         else (put_flag F_writable False shadow_pte m, False))"

definition drop_cache :: "bool \<Rightarrow> 'c guest_info \<Rightarrow> 'c guest_info" where
  "drop_cache b info = (if b then info\<lparr>shdw_pg_state := (shdw_pg_state info)\<lparr>cached_cr3 := 0\<rparr>\<rparr> else info)"

definition handle_shadow_pte32_fault ::
  "'c guest_info emulator \<Rightarrow> 'c guest_info emulator \<Rightarrow> 'c guest_info \<Rightarrow> addr_t \<Rightarrow> pf_error \<Rightarrow> addr_t \<Rightarrow> addr_t
    \<Rightarrow> (int \<times> 'c guest_info) option" where
  "handle_shadow_pte32_fault ew er info fault_addr error_code shadow_pt guest_pt =
     (let m = host_mem info;
          guest_pte = pte_at guest_pt fault_addr;
          shadow_pte = pte_at shadow_pt fault_addr;
          guest_pte_access = can_access_pte32 m guest_pt fault_addr error_code;
          shadow_pte_access = can_access_pte32 m shadow_pt fault_addr error_code
      in if is_guest_pf guest_pte_access shadow_pte_access then Some (0, inject_guest_pf info fault_addr error_code)
         else if shadow_pte_access = PT_ACCESS_OK then Some (0, info)
         else if shadow_pte_access = PT_ENTRY_NOT_PRESENT
         then let guest_pa = ucast (PTE32_T_ADDR (load32 m guest_pte) + PT32_PAGE_OFFSET fault_addr);
                  host_page_type = get_shadow_addr_type info guest_pa
              in if host_page_type = HOST_REGION_INVALID then Some (0, raise_mc info)
                 else if host_page_type = HOST_REGION_PHYSICAL_MEMORY
                 then map_option (\<lambda>is_pt. case fill_pte shadow_pte guest_pte (get_shadow_addr info guest_pa) error_code is_pt m of
                          (m', wr) \<Rightarrow> (0, drop_cache wr (info\<lparr>host_mem := m'\<rparr>)))
                        (in_pte_cache info guest_pa)
                 else special_fault ew er info fault_addr guest_pa error_code
         else if shadow_pte_access = PT_WRITE_ERROR \<and> \<not> pt_dirty (load32 m guest_pte)
         then let m1 = put_flag F_dirty True guest_pte m;
                  m2 = put_flag F_writable (get_flag F_writable guest_pte m1) shadow_pte m1
              in Some (0, drop_cache (pt_vmm_info (load32 m2 shadow_pte) = PT32_GUEST_PT) (info\<lparr>host_mem := m2\<rparr>))
         else Some (-1, inject_guest_pf info fault_addr error_code))"

text \<open>A new shadow page table, entered in the directory.\<close>

definition fill_pde :: "os_hooks \<Rightarrow> addr_t \<Rightarrow> addr_t \<Rightarrow> addr_t \<Rightarrow> mem \<Rightarrow> mem" where
  "fill_pde h shadow_pde guest_pde shadow_pt m =
     (let m = put_flag F_present True shadow_pde m;
          m = put_flag F_user_page (get_flag F_user_page guest_pde m) shadow_pde m;
          m = put_flag F_large_page False shadow_pde m;
          m = put_flag F_write_through False shadow_pde m;
          m = put_flag F_cache_disable False shadow_pde m;
          m = put_flag F_global_page False shadow_pde m;
          m = put_flag F_accessed True guest_pde m;
          m = put_base_addr (PD32_BASE_ADDR (V3_PAddr h shadow_pt)) shadow_pde m
      in if \<not> get_flag F_large_page guest_pde m
         then put_flag F_writable (get_flag F_writable guest_pde m) shadow_pde m
         else put_flag F_writable False shadow_pde (put_flag F_dirty False guest_pde m))"

definition handle_shadow_pagefault32 ::
  "os_hooks \<Rightarrow> 'c guest_info emulator \<Rightarrow> 'c guest_info emulator \<Rightarrow> addr_t \<Rightarrow> 'c guest_info \<Rightarrow> addr_t \<Rightarrow> pf_error
    \<Rightarrow> (int \<times> 'c guest_info) option" where
  "handle_shadow_pagefault32 h ew er page info fault_addr error_code =
     (let m = host_mem info;
          shadow_pd = CR3_TO_PDE32 (V3_VAddr h) (shadow_cr3 (shdw_pg_state info));
          guest_cr3 = V3_PAddr h (CR3_TO_PDE32 (V3_VAddr h) (guest_cr3 (shdw_pg_state info)));
          shadow_pde = pde_at shadow_pd fault_addr
      in (case guest_pa_to_host_va h info guest_cr3 of
            None \<Rightarrow> Some (-1, info)
          | Some guest_pd \<Rightarrow>
              let guest_pde = pde_at guest_pd fault_addr;
                  guest_pde_access = can_access_pde32 m guest_pd fault_addr error_code;
                  shadow_pde_access = can_access_pde32 m shadow_pd fault_addr error_code
              in if is_guest_pf guest_pde_access shadow_pde_access
                 then Some (0, inject_guest_pf info fault_addr error_code)
                 else if shadow_pde_access = PT_ENTRY_NOT_PRESENT
                 then (case v3_create_new_shadow_pt32 h page m of
                         (shadow_pt, m1) \<Rightarrow> Some (0, info\<lparr>host_mem := fill_pde h shadow_pde guest_pde shadow_pt m1\<rparr>))
                 else if shadow_pde_access = PT_ACCESS_OK
                 then let shadow_pt = V3_VAddr h (scast (PDE32_T_ADDR (load32 m shadow_pde)))
                      in if \<not> pde_large_page (load32 m guest_pde)
                         then (case guest_pa_to_host_va h info (scast (PDE32_T_ADDR (load32 m guest_pde))) of
                                 None \<Rightarrow> Some (0, raise_mc info)
                               | Some guest_pt \<Rightarrow>
                                   map_option (\<lambda>(ret, info'). (if ret = -1 then -1 else 0, info'))
                                     (handle_shadow_pte32_fault ew er info fault_addr error_code shadow_pt guest_pt))
                         else map_option (\<lambda>(ret, info'). (if ret = -1 then -1 else 0, info'))
                                (handle_large_pagefault32 ew er info fault_addr error_code shadow_pt guest_pde)
                 else if shadow_pde_access = PT_WRITE_ERROR \<and> pde_large_page (load32 m guest_pde)
                         \<and> \<not> pt_dirty (load32 m guest_pde)
                 then let m1 = put_flag F_dirty True guest_pde m
                      in Some (0, info\<lparr>host_mem := put_flag F_writable (get_flag F_writable guest_pde m1) shadow_pde m1\<rparr>)
                 else Some (0, inject_guest_pf info fault_addr error_code)))"

definition v3_handle_shadow_pagefault ::
  "os_hooks \<Rightarrow> 'c guest_info emulator \<Rightarrow> 'c guest_info emulator \<Rightarrow> addr_t \<Rightarrow> 'c guest_info \<Rightarrow> addr_t \<Rightarrow> pf_error
    \<Rightarrow> (int \<times> 'c guest_info) option" where
  "v3_handle_shadow_pagefault h ew er page info fault_addr error_code =
     (case mem_mode info of
        PHYSICAL_MEM \<Rightarrow> handle_special_page_fault ew er info info fault_addr fault_addr (pf_write error_code)
      | VIRTUAL_MEM \<Rightarrow>
          (case cpu_mode info of
             PROTECTED \<Rightarrow> handle_shadow_pagefault32 h ew er page info fault_addr error_code
           | _ \<Rightarrow> Some (-1, info)))"

section \<open>Memory effects\<close>

text \<open>Everything the handlers read is a 32-bit word at an address that is a multiple of four.\<close>

definition aligned4 :: "addr_t \<Rightarrow> bool" where
  "aligned4 a \<longleftrightarrow> unat a mod 4 = 0"

lemma aligned4_disjoint:
  assumes "aligned4 a" "aligned4 b" "a \<noteq> b"
  shows "disjoint32 a b"
proof -
  have "4 \<le> unat (x - y)" if "aligned4 x" "aligned4 y" "x \<noteq> y" for x y :: addr_t
  proof -
    have "unat ((x - y) + y) mod 4 = (unat (x - y) + unat y) mod 4" by (simp only: unat_word_ariths) (simp add: mod_mod_cancel)
    then have "unat x mod 4 = (unat (x - y) + unat y) mod 4" by simp
    then have "(unat (x - y) + unat y) mod 4 = 0" using that(1) by (simp add: aligned4_def)
    then have "unat (x - y) mod 4 = 0" using that(2) mod_add_right_eq[of "unat (x - y)" "unat y" 4] by (simp add: aligned4_def)
    moreover have "unat (x - y) \<noteq> 0" using that(3) by (simp add: unat_eq_0)
    ultimately show ?thesis by (cases "unat (x - y) < 4") (auto simp: mod_less)
  qed
  then show ?thesis using assms by (auto simp: disjoint32_def)
qed

end
