(* ===== verification/V3_Shadow_Inv.thy ===== *)
theory V3_Shadow_Inv
  imports V3_Shadow_Paging
begin

text \<open>
  The isolation invariant of the shadow page tables: every page the processor can reach through them
  belongs to the guest, and the guest cannot reach the tables themselves. First the invariant over a
  memory, with what each kind of update keeps of it; then the fault handler.
\<close>

section \<open>Tables in memory\<close>

definition page_num :: "addr_t \<Rightarrow> nat" where
  "page_num a = unat a div 4096"

definition page_aligned :: "addr_t \<Rightarrow> bool" where
  "page_aligned a \<longleftrightarrow> unat a mod 4096 = 0"

definition slot :: "addr_t \<Rightarrow> nat \<Rightarrow> addr_t" where
  "slot b k = b + 4 * of_nat k"

lemma unat_slot: "page_aligned b \<Longrightarrow> k < 1024 \<Longrightarrow> unat (slot b k) = unat b + 4 * k"
  using unat_same_page[of b "4 * k"] by (simp add: slot_def page_aligned_def)

lemma slot_page: "page_aligned b \<Longrightarrow> k < 1024 \<Longrightarrow> page_num (slot b k) = page_num b"
  by (simp add: page_num_def unat_slot) (simp add: page_aligned_def div_add1_eq)

lemma mod4_of_4096: "(n :: nat) mod 4096 = 0 \<Longrightarrow> n mod 4 = 0"
  using mod_mod_cancel[of 4 4096 n] by simp

lemma slot_aligned4: "page_aligned b \<Longrightarrow> k < 1024 \<Longrightarrow> aligned4 (slot b k)"
  using mod4_of_4096[of "unat b"] by (simp add: aligned4_def unat_slot page_aligned_def mod_add_eq[symmetric])

lemma slot_inj: "page_aligned b \<Longrightarrow> k < 1024 \<Longrightarrow> l < 1024 \<Longrightarrow> slot b k = slot b l \<Longrightarrow> k = l"
  by (metis add_left_cancel mult_left_cancel unat_slot zero_neq_numeral)

lemma page_aligned_eqI: "page_aligned a \<Longrightarrow> page_aligned b \<Longrightarrow> page_num a = page_num b \<Longrightarrow> a = b"
  unfolding page_aligned_def page_num_def word_unat_eq_iff by (metis div_mult_mod_eq)

lemma slot_neq:
  "page_aligned a \<Longrightarrow> page_aligned b \<Longrightarrow> a \<noteq> b \<Longrightarrow> k < 1024 \<Longrightarrow> l < 1024 \<Longrightarrow> slot a k \<noteq> slot b l"
  by (metis page_aligned_eqI slot_page)

lemma pde_at_slot: "pde_at pd x = slot pd (unat (PDE32_INDEX x))" "unat (PDE32_INDEX x) < 1024"
  by (simp_all add: pde_at_nat slot_def unat_PDE32_INDEX)

lemma pte_at_slot: "pte_at pt x = slot pt (unat (PTE32_INDEX x))" "unat (PTE32_INDEX x) < 1024"
  by (simp_all add: pte_at_nat slot_def unat_PTE32_INDEX)

section \<open>The invariant\<close>

definition sh_pde :: "addr_t \<Rightarrow> mem \<Rightarrow> nat \<Rightarrow> uint_t" where
  "sh_pde pd m i = load32 m (slot pd i)"

definition sh_pt :: "(addr_t \<Rightarrow> addr_t) \<Rightarrow> addr_t \<Rightarrow> mem \<Rightarrow> nat \<Rightarrow> addr_t" where
  "sh_pt va pd m i = va (scast (PDE32_T_ADDR (sh_pde pd m i)))"

definition sh_pte :: "(addr_t \<Rightarrow> addr_t) \<Rightarrow> addr_t \<Rightarrow> mem \<Rightarrow> nat \<Rightarrow> nat \<Rightarrow> uint_t" where
  "sh_pte va pd m i j = load32 m (slot (sh_pt va pd m i) j)"

text \<open>
  \<open>G\<close> are the host virtual addresses of guest memory and \<open>H\<close> the numbers of its host-physical pages. The
  directory and the tables are different pages outside \<open>G\<close>, and a present entry maps a page of \<open>H\<close>.
\<close>

definition pde_good :: "(addr_t \<Rightarrow> addr_t) \<Rightarrow> addr_t \<Rightarrow> uint_t \<Rightarrow> bool" where
  "pde_good va pd e \<longleftrightarrow> unat e < 2 ^ 31 \<and> \<not> pde_large_page e \<and> page_aligned (va (scast (PDE32_T_ADDR e)))
     \<and> va (scast (PDE32_T_ADDR e)) \<noteq> pd"

definition pte_good :: "nat set \<Rightarrow> uint_t \<Rightarrow> bool" where
  "pte_good H e \<longleftrightarrow> (pt_present e \<longrightarrow> unat (pt_base_addr e) \<in> H)"

definition shadow_ok :: "(addr_t \<Rightarrow> addr_t) \<Rightarrow> addr_t set \<Rightarrow> nat set \<Rightarrow> addr_t \<Rightarrow> mem \<Rightarrow> bool" where
  "shadow_ok va G H pd m \<longleftrightarrow> page_aligned pd \<and> page_num pd \<notin> page_num ` G
     \<and> (\<forall>i < 1024. pt_present (sh_pde pd m i) \<longrightarrow> pde_good va pd (sh_pde pd m i)
          \<and> page_num (sh_pt va pd m i) \<notin> page_num ` G
          \<and> (\<forall>k < 1024. pt_present (sh_pde pd m k) \<and> sh_pt va pd m k = sh_pt va pd m i \<longrightarrow> k = i)
          \<and> (\<forall>j < 1024. pte_good H (sh_pte va pd m i j)))"

lemma shadow_okD:
  assumes "shadow_ok va G H pd m"
  shows "page_aligned pd" "page_num pd \<notin> page_num ` G"
    and "i < 1024 \<Longrightarrow> pt_present (sh_pde pd m i) \<Longrightarrow> pde_good va pd (sh_pde pd m i)"
    and "i < 1024 \<Longrightarrow> pt_present (sh_pde pd m i) \<Longrightarrow> page_aligned (sh_pt va pd m i)"
    and "i < 1024 \<Longrightarrow> pt_present (sh_pde pd m i) \<Longrightarrow> sh_pt va pd m i \<noteq> pd"
    and "i < 1024 \<Longrightarrow> pt_present (sh_pde pd m i) \<Longrightarrow> page_num (sh_pt va pd m i) \<notin> page_num ` G"
    and "i < 1024 \<Longrightarrow> k < 1024 \<Longrightarrow> pt_present (sh_pde pd m i) \<Longrightarrow> pt_present (sh_pde pd m k)
      \<Longrightarrow> sh_pt va pd m k = sh_pt va pd m i \<Longrightarrow> k = i"
    and "i < 1024 \<Longrightarrow> pt_present (sh_pde pd m i) \<Longrightarrow> j < 1024 \<Longrightarrow> pte_good H (sh_pte va pd m i j)"
  using assms unfolding shadow_ok_def by (simp_all add: pde_good_def sh_pt_def)

text \<open>The words two memories agree on.\<close>

definition same_except :: "addr_t set \<Rightarrow> mem \<Rightarrow> mem \<Rightarrow> bool" where
  "same_except A m m' \<longleftrightarrow> (\<forall>x. aligned4 x \<and> x \<notin> A \<longrightarrow> load32 m' x = load32 m x)"

lemma same_except_refl [simp]: "same_except A m m"
  by (simp add: same_except_def)

lemma same_except_trans: "same_except A m m1 \<Longrightarrow> same_except B m1 m2 \<Longrightarrow> same_except (A \<union> B) m m2"
  by (auto simp: same_except_def)

lemma same_except_mono: "same_except A m m' \<Longrightarrow> A \<subseteq> B \<Longrightarrow> same_except B m m'"
  by (auto simp: same_except_def)

lemma same_except_store: "aligned4 a \<Longrightarrow> same_except {a} m (store32 m a v)"
  by (auto simp: same_except_def mem_simps aligned4_disjoint)

lemma same_slot:
  assumes "same_except A m m'" "page_aligned b" "k < 1024" "slot b k \<notin> A"
  shows "load32 m' (slot b k) = load32 m (slot b k)"
  using assms slot_aligned4 by (auto simp: same_except_def)

lemma slot_not_guest: "page_aligned b \<Longrightarrow> page_num b \<notin> page_num ` G \<Longrightarrow> k < 1024 \<Longrightarrow> slot b k \<notin> G"
  using slot_page by (metis image_eqI)

section \<open>Updates that keep the invariant\<close>

lemma sh_pt_cong: "sh_pde pd m' i = sh_pde pd m i \<Longrightarrow> sh_pt va pd m' i = sh_pt va pd m i"
  by (simp add: sh_pt_def)

text \<open>One entry of one table.\<close>

lemma shadow_ok_pte:
  assumes ok: "shadow_ok va G H pd m" and ij: "i < 1024" "j < 1024" and p: "pt_present (sh_pde pd m i)"
    and same: "same_except (insert (slot (sh_pt va pd m i) j) G) m m'"
    and new: "pte_good H (load32 m' (slot (sh_pt va pd m i) j))"
  shows "shadow_ok va G H pd m'"
proof -
  note D = shadow_okD[OF ok]
  have pde: "sh_pde pd m' k = sh_pde pd m k" if "k < 1024" for k
    unfolding sh_pde_def
    by (rule same_slot[OF same D(1) that])
      (use slot_not_guest[OF D(1,2) that] slot_neq[OF D(1) D(4)[OF ij(1) p] D(5)[OF ij(1) p, symmetric] that ij(2)] in auto)
  note pt = sh_pt_cong[OF pde]
  have pte: "pte_good H (sh_pte va pd m' k l)" if k: "k < 1024" "l < 1024" "pt_present (sh_pde pd m k)" for k l
  proof (cases "k = i \<and> l = j")
    case True
    then show ?thesis using new by (simp add: sh_pte_def pt ij)
  next
    case False
    have "slot (sh_pt va pd m k) l \<noteq> slot (sh_pt va pd m i) j"
    proof (cases "k = i")
      case True
      then show ?thesis using False slot_inj[OF D(4)[OF k(1,3)] k(2) ij(2)] by auto
    next
      case False
      then have "sh_pt va pd m k \<noteq> sh_pt va pd m i" using D(7)[OF ij(1) k(1) p k(3)] by auto
      then show ?thesis using slot_neq[OF D(4)[OF k(1,3)] D(4)[OF ij(1) p] _ k(2) ij(2)] by blast
    qed
    then have "sh_pte va pd m' k l = sh_pte va pd m k l"
      unfolding sh_pte_def pt[OF k(1)]
      by (intro same_slot[OF same D(4)[OF k(1,3)] k(2)]) (use slot_not_guest[OF D(4,6)[OF k(1,3)] k(2)] in auto)
    then show ?thesis using D(8)[OF k(1,3,2)] by simp
  qed
  show ?thesis unfolding shadow_ok_def
    using D(1,2,3,6,7) pte by (auto simp: pde pt)
qed

text \<open>One entry of the directory: dropped, changed in its flags, or pointed to a new empty table \<open>t\<close>.\<close>

lemma shadow_ok_pde:
  assumes ok: "shadow_ok va G H pd m" and i: "i < 1024"
    and same: "same_except (insert (slot pd i) (G \<union> {a. page_num a = page_num t})) m m'"
    and t: "page_aligned t" "t \<noteq> pd" "\<forall>k < 1024. k \<noteq> i \<and> pt_present (sh_pde pd m k) \<longrightarrow> sh_pt va pd m k \<noteq> t"
    and e: "e = load32 m' (slot pd i)"
    and new: "pt_present e \<Longrightarrow> pde_good va pd e \<and> va (scast (PDE32_T_ADDR e)) = t \<and> page_num t \<notin> page_num ` G
      \<and> (\<forall>j < 1024. pte_good H (load32 m' (slot t j)))"
  shows "shadow_ok va G H pd m'"
proof -
  note D = shadow_okD[OF ok]
  have pde: "sh_pde pd m' k = (if k = i then e else sh_pde pd m k)" if k: "k < 1024" for k
  proof (cases "k = i")
    case False
    have "page_num (slot pd k) \<noteq> page_num t" using slot_page[OF D(1) k] page_aligned_eqI[OF D(1) t(1)] t(2) by metis
    then have "slot pd k \<notin> insert (slot pd i) (G \<union> {a. page_num a = page_num t})"
      using slot_not_guest[OF D(1,2) k] slot_inj[OF D(1) k i] False by auto
    then show ?thesis using same_slot[OF same D(1) k] False by (simp add: sh_pde_def)
  qed (simp add: sh_pde_def e)
  have pt: "sh_pt va pd m' k = sh_pt va pd m k" if "k < 1024" "k \<noteq> i" for k
    by (rule sh_pt_cong) (simp add: pde that)
  have pti: "pt_present e \<Longrightarrow> sh_pt va pd m' i = t" using new by (simp add: sh_pt_def pde[OF i])
  have pte: "sh_pte va pd m' k l = sh_pte va pd m k l" if k: "k < 1024" "k \<noteq> i" "l < 1024" "pt_present (sh_pde pd m k)" for k l
  proof -
    note b = D(4)[OF k(1,4)] D(6)[OF k(1,4)]
    have "slot (sh_pt va pd m k) l \<noteq> slot pd i" using slot_neq[OF b(1) D(1) D(5)[OF k(1,4)] k(3) i] .
    moreover have "page_num (slot (sh_pt va pd m k) l) \<noteq> page_num t"
      using slot_page[OF b(1) k(3)] page_aligned_eqI[OF b(1) t(1)] t(3) k by metis
    ultimately show ?thesis unfolding sh_pte_def pt[OF k(1,2)]
      by (intro same_slot[OF same b(1) k(3)]) (use slot_not_guest[OF b k(3)] in auto)
  qed
  have fresh: "sh_pt va pd m k \<noteq> t" if "k < 1024" "k \<noteq> i" "pt_present (sh_pde pd m k)" for k using t(3) that by blast
  have "pde_good va pd (sh_pde pd m' k) \<and> page_num (sh_pt va pd m' k) \<notin> page_num ` G
      \<and> (\<forall>l < 1024. pt_present (sh_pde pd m' l) \<and> sh_pt va pd m' l = sh_pt va pd m' k \<longrightarrow> l = k)
      \<and> (\<forall>j < 1024. pte_good H (sh_pte va pd m' k j))"
    if k: "k < 1024" "pt_present (sh_pde pd m' k)" for k
  proof (cases "k = i")
    case True
    then have pe: "pt_present e" using k pde by simp
    have "l = i" if "l < 1024" "pt_present (sh_pde pd m' l)" "sh_pt va pd m' l = t" for l
      using that fresh[of l] pt[of l] pde[of l] by (cases "l = i") auto
    then show ?thesis using new[OF pe] pti[OF pe] True pde[OF i] by (auto simp: sh_pte_def)
  next
    case False
    then have pk: "pt_present (sh_pde pd m k)" using k pde by simp
    have "l = k" if l: "l < 1024" "pt_present (sh_pde pd m' l)" "sh_pt va pd m' l = sh_pt va pd m' k" for l
    proof (cases "l = i")
      case True
      then have "pt_present e" using l pde by simp
      then show ?thesis using fresh[OF k(1) False pk] pti l(3) pt[OF k(1) False] True by simp
    next
      case F: False
      then show ?thesis using D(7)[OF k(1) l(1) pk] l pde[OF l(1)] pt[OF l(1) F] pt[OF k(1) False] by simp
    qed
    then show ?thesis
      using D(3)[OF k(1) pk] D(6)[OF k(1) pk] D(8)[OF k(1) pk] pde[OF k(1)] pt[OF k(1) False] pte[OF k(1) False _ pk] False by simp
  qed
  then show ?thesis unfolding shadow_ok_def using D(1,2) by blast
qed

section \<open>Effects of the fills\<close>

named_theorems put_simps \<open>reading entries after writes to their fields\<close>

lemma load_put_same [put_simps]:
  "load32 (put_flag i b a m) a = bf_put i b (load32 m a)"
  "load32 (put_vmm_info v a m) a = bf_set 9 3 v (load32 m a)"
  "load32 (put_base_addr v a m) a = bf_set 12 20 v (load32 m a)"
  by (simp_all add: put_flag_def put_vmm_info_def put_base_addr_def mem_simps)

lemma load_put_other [put_simps]:
  "aligned4 a \<Longrightarrow> aligned4 x \<Longrightarrow> x \<noteq> a \<Longrightarrow> load32 (put_flag i b a m) x = load32 m x"
  "aligned4 a \<Longrightarrow> aligned4 x \<Longrightarrow> x \<noteq> a \<Longrightarrow> load32 (put_vmm_info v a m) x = load32 m x"
  "aligned4 a \<Longrightarrow> aligned4 x \<Longrightarrow> x \<noteq> a \<Longrightarrow> load32 (put_base_addr v a m) x = load32 m x"
  by (simp_all add: put_flag_def put_vmm_info_def put_base_addr_def mem_simps aligned4_disjoint)

lemma same_except_loads:
  assumes "\<And>x. aligned4 x \<Longrightarrow> x \<noteq> a \<Longrightarrow> load32 m' x = load32 m x" "a \<in> A"
  shows "same_except A m0 m' \<longleftrightarrow> same_except A m0 m"
proof -
  have "load32 m' x = load32 m x" if "aligned4 x" "x \<notin> A" for x using assms that by metis
  then show ?thesis by (auto simp: same_except_def)
qed

lemma same_except_put [put_simps]:
  "aligned4 a \<Longrightarrow> a \<in> A \<Longrightarrow> same_except A m0 (put_flag i b a m) \<longleftrightarrow> same_except A m0 m"
  "aligned4 a \<Longrightarrow> a \<in> A \<Longrightarrow> same_except A m0 (put_vmm_info v a m) \<longleftrightarrow> same_except A m0 m"
  "aligned4 a \<Longrightarrow> a \<in> A \<Longrightarrow> same_except A m0 (put_base_addr v a m) \<longleftrightarrow> same_except A m0 m"
  by (rule same_except_loads; simp add: load_put_other)+

lemma entry_put [put_simps]:
  "pt_present (bf_put i b e) = (if i = 0 then b else pt_present e)"
  "pt_writable (bf_put i b e) = (if i = 1 then b else pt_writable e)"
  "pt_user_page (bf_put i b e) = (if i = 2 then b else pt_user_page e)"
  "pt_accessed (bf_put i b e) = (if i = 5 then b else pt_accessed e)"
  "pt_dirty (bf_put i b e) = (if i = 6 then b else pt_dirty e)"
  "pde_large_page (bf_put i b e) = (if i = 7 then b else pde_large_page e)"
  by (auto simp: pt_present_def pt_writable_def pt_user_page_def pt_accessed_def pt_dirty_def pde_large_page_def bf_simps)

lemma entry_put_fields [put_simps]:
  "i < 9 \<Longrightarrow> pt_base_addr (bf_put i b e) = pt_base_addr e"
  "i < 9 \<Longrightarrow> pt_vmm_info (bf_put i b e) = pt_vmm_info e"
  by (auto simp: pt_base_addr_def pt_vmm_info_def bf_simps)

lemma entry_set [put_simps]:
  "pt_base_addr (bf_set 12 20 v e) = take_bit 20 v" "pt_vmm_info (bf_set 12 20 v e) = pt_vmm_info e"
  "pt_base_addr (bf_set 9 3 v e) = pt_base_addr e" "pt_vmm_info (bf_set 9 3 v e) = take_bit 3 v"
  "pt_present (bf_set 12 20 v e) = pt_present e" "pt_present (bf_set 9 3 v e) = pt_present e"
  "pt_writable (bf_set 12 20 v e) = pt_writable e" "pt_writable (bf_set 9 3 v e) = pt_writable e"
  "pt_user_page (bf_set 12 20 v e) = pt_user_page e" "pt_user_page (bf_set 9 3 v e) = pt_user_page e"
  "pt_dirty (bf_set 12 20 v e) = pt_dirty e" "pt_dirty (bf_set 9 3 v e) = pt_dirty e"
  "pde_large_page (bf_set 12 20 v e) = pde_large_page e" "pde_large_page (bf_set 9 3 v e) = pde_large_page e"
  by (auto simp: pt_present_def pt_writable_def pt_user_page_def pt_dirty_def pt_base_addr_def pt_vmm_info_def
      pde_large_page_def bf_simps)

lemma get_flag_entry [put_simps]:
  "get_flag 0 a m = pt_present (load32 m a)" "get_flag (Suc 0) a m = pt_writable (load32 m a)"
  "get_flag 2 a m = pt_user_page (load32 m a)" "get_flag 6 a m = pt_dirty (load32 m a)"
  "get_flag 7 a m = pde_large_page (load32 m a)"
  by (simp_all add: get_flag_def pt_present_def pt_writable_def pt_user_page_def pt_dirty_def pde_large_page_def)

lemma PT32_BASE_ADDR_take: "take_bit 20 (PT32_BASE_ADDR x) = PT32_BASE_ADDR x" "take_bit 20 (PD32_BASE_ADDR x) = PD32_BASE_ADDR x"
  unfolding PT32_BASE_ADDR_def PD32_BASE_ADDR_def
  by (rule bit_word_eqI; auto simp: bit_simps dest: bit_imp_le_length)+

lemma fill_pte_effect:
  assumes "aligned4 sp" "aligned4 gp" "sp \<noteq> gp" "fill_pte sp gp spa ec is_pt m = (m', wr)"
  shows "same_except {sp, gp} m m'"
    and "pt_present (load32 m' sp) = pt_present (load32 m gp)"
    and "pt_user_page (load32 m' sp) = pt_user_page (load32 m gp)"
    and "pt_writable (load32 m' sp) \<longleftrightarrow> pt_writable (load32 m gp) \<and> (pt_dirty (load32 m gp) \<or> pf_write ec)"
    and "pt_base_addr (load32 m' sp) = PT32_BASE_ADDR spa"
    and "pt_base_addr (load32 m' gp) = pt_base_addr (load32 m gp)"
    and "pt_present (load32 m' gp) = pt_present (load32 m gp)"
    and "pt_writable (load32 m' gp) = pt_writable (load32 m gp)"
    and "pt_user_page (load32 m' gp) = pt_user_page (load32 m gp)"
    and "pt_accessed (load32 m' gp)"
    and "pt_dirty (load32 m' gp) \<longleftrightarrow> pt_dirty (load32 m gp) \<or> pf_write ec"
proof -
  show "same_except {sp, gp} m m'"
    using assms unfolding fill_pte_def Let_def by (auto simp: put_simps split: if_splits)
  note d = assms(1-3) assms(3)[symmetric]
  show "pt_present (load32 m' sp) = pt_present (load32 m gp)" "pt_user_page (load32 m' sp) = pt_user_page (load32 m gp)"
    "pt_writable (load32 m' sp) \<longleftrightarrow> pt_writable (load32 m gp) \<and> (pt_dirty (load32 m gp) \<or> pf_write ec)"
    "pt_base_addr (load32 m' sp) = PT32_BASE_ADDR spa"
    "pt_base_addr (load32 m' gp) = pt_base_addr (load32 m gp)"
    "pt_present (load32 m' gp) = pt_present (load32 m gp)" "pt_writable (load32 m' gp) = pt_writable (load32 m gp)"
    "pt_user_page (load32 m' gp) = pt_user_page (load32 m gp)" "pt_accessed (load32 m' gp)"
    "pt_dirty (load32 m' gp) \<longleftrightarrow> pt_dirty (load32 m gp) \<or> pf_write ec"
    using assms(4) unfolding fill_pte_def Let_def
    by (auto simp: put_simps d PT32_BASE_ADDR_take split: if_splits)
qed

lemma fill_large_pte_effect:
  assumes "aligned4 sp" "m' = fill_large_pte sp spa is_pt m"
  shows "same_except {sp} m m'" "pt_present (load32 m' sp)" "pt_user_page (load32 m' sp)"
    and "pt_writable (load32 m' sp) \<longleftrightarrow> \<not> is_pt"
    and "is_pt \<Longrightarrow> pt_vmm_info (load32 m' sp) = PT32_GUEST_PT"
    and "pt_base_addr (load32 m' sp) = PT32_BASE_ADDR spa"
  using assms unfolding fill_large_pte_def Let_def
  by (auto simp: put_simps PT32_BASE_ADDR_take PT32_GUEST_PT_def)

lemma fill_pde_effect:
  assumes "aligned4 sp" "aligned4 gp" "sp \<noteq> gp" "m' = fill_pde h sp gp t m"
  shows "same_except {sp, gp} m m'"
    and "pt_present (load32 m' sp)" "\<not> pde_large_page (load32 m' sp)"
    and "pt_user_page (load32 m' sp) = pt_user_page (load32 m gp)"
    and "pt_writable (load32 m' sp) \<longleftrightarrow> pt_writable (load32 m gp) \<and> \<not> pde_large_page (load32 m gp)"
    and "pt_base_addr (load32 m' sp) = PD32_BASE_ADDR (V3_PAddr h t)"
    and "pt_accessed (load32 m' gp)" "pt_present (load32 m' gp) = pt_present (load32 m gp)"
    and "pt_base_addr (load32 m' gp) = pt_base_addr (load32 m gp)"
    and "pde_large_page (load32 m' gp) = pde_large_page (load32 m gp)"
    and "pt_writable (load32 m' gp) = pt_writable (load32 m gp)"
    and "pt_user_page (load32 m' gp) = pt_user_page (load32 m gp)"
proof -
  note d = assms(1-3) assms(3)[symmetric]
  show "same_except {sp, gp} m m'" "pt_present (load32 m' sp)" "\<not> pde_large_page (load32 m' sp)"
    "pt_user_page (load32 m' sp) = pt_user_page (load32 m gp)"
    "pt_writable (load32 m' sp) \<longleftrightarrow> pt_writable (load32 m gp) \<and> \<not> pde_large_page (load32 m gp)"
    "pt_base_addr (load32 m' sp) = PD32_BASE_ADDR (V3_PAddr h t)"
    "pt_accessed (load32 m' gp)" "pt_present (load32 m' gp) = pt_present (load32 m gp)"
    "pt_base_addr (load32 m' gp) = pt_base_addr (load32 m gp)"
    "pde_large_page (load32 m' gp) = pde_large_page (load32 m gp)"
    "pt_writable (load32 m' gp) = pt_writable (load32 m gp)" "pt_user_page (load32 m' gp) = pt_user_page (load32 m gp)"
    unfolding assms(4) fill_pde_def Let_def by (auto simp: put_simps d PT32_BASE_ADDR_take)
qed

lemma div_same_page: "(n :: nat) mod 4096 + i < 4096 \<Longrightarrow> (n + i) div 4096 = n div 4096"
proof -
  assume lt: "n mod 4096 + i < 4096"
  have "n + i = (n mod 4096 + i) + n div 4096 * 4096" using div_mult_mod_eq[of n 4096] by linarith
  then have "(n + i) div 4096 = ((n mod 4096 + i) + n div 4096 * 4096) div 4096" by (rule arg_cong)
  also have "\<dots> = n div 4096 + (n mod 4096 + i) div 4096" by (rule div_mult_self1) simp
  also have "(n mod 4096 + i) div 4096 = 0" using lt by (rule div_less)
  finally show ?thesis by (simp only: add_0_right)
qed

lemma page_num_bytes: "aligned4 x \<Longrightarrow> i < 4 \<Longrightarrow> page_num (x + of_nat i) = page_num x"
proof -
  assume x: "aligned4 x" and i: "i < 4"
  have "unat x mod 4096 mod 4 = unat x mod 4" by (rule mod_mod_cancel) simp
  then obtain q where q: "unat x mod 4096 = 4 * q" using x unfolding aligned4_def by auto
  moreover have "unat x mod 4096 < 4096" by simp
  ultimately have "q < 1024" by linarith
  then have lt: "unat x mod 4096 + i < 4096" unfolding q using i by linarith
  then show ?thesis unfolding page_num_def unat_same_page[OF lt] by (rule div_same_page)
qed

lemma in_page_iff:
  assumes "page_aligned t"
  shows "unat (a - t) < 4096 \<longleftrightarrow> page_num a = page_num t"
proof
  assume lt: "unat (a - t) < 4096"
  have "unat a = unat (t + of_nat (unat (a - t)))" by simp
  also have "\<dots> = unat t + unat (a - t)" using assms lt by (intro unat_same_page) (simp add: page_aligned_def)
  finally have u: "unat a = unat t + unat (a - t)" .
  then show "page_num a = page_num t"
    using div_same_page[of "unat t" "unat (a - t)"] lt assms unfolding page_num_def page_aligned_def by (metis add_0)
next
  assume "page_num a = page_num t"
  then have "unat a = unat t + unat a mod 4096"
    using assms div_mult_mod_eq[of "unat a" 4096] div_mult_mod_eq[of "unat t" 4096]
    unfolding page_num_def page_aligned_def by linarith
  then have "unat t \<le> unat a" "unat a - unat t < 4096"
    using mod_less_divisor[of 4096 "unat a"] by linarith+
  then show "unat (a - t) < 4096" by (simp add: unat_sub word_le_nat_alt)
qed

lemma zero_page_effect:
  assumes "page_aligned t"
  shows "same_except {a. page_num a = page_num t} m (zero_page t m)"
    and "j < 1024 \<Longrightarrow> load32 (zero_page t m) (slot t j) = 0"
proof -
  have z: "zero_page t m a = (if page_num a = page_num t then 0 else m a)" for a
    by (simp add: zero_page_def PAGE_SIZE_def in_page_iff[OF assms])
  have b: "page_num (x + 1) = page_num x" "page_num (x + 2) = page_num x" "page_num (x + 3) = page_num x" if "aligned4 x" for x
    using page_num_bytes[OF that, of 1] page_num_bytes[OF that, of 2] page_num_bytes[OF that, of 3] by simp_all
  show "same_except {a. page_num a = page_num t} m (zero_page t m)"
    by (simp add: same_except_def load32_def z b)
  show "load32 (zero_page t m) (slot t j) = 0" if "j < 1024"
    using slot_page[OF assms that] b[OF slot_aligned4[OF assms that]] by (simp add: load32_def z)
qed

section \<open>The invariant of a guest\<close>

definition guest_vas :: "os_hooks \<Rightarrow> 'c guest_info \<Rightarrow> addr_t set" where
  "guest_vas h info = {v. \<exists>a. guest_pa_to_host_va h info a = Some v}"

definition guest_frames :: "'c guest_info \<Rightarrow> nat set" where
  "guest_frames info = {page_num p | p. \<exists>a. guest_pa_to_host_pa info a = Some p}"

definition shd_pd :: "os_hooks \<Rightarrow> 'c guest_info \<Rightarrow> addr_t" where
  "shd_pd h info = CR3_TO_PDE32 (V3_VAddr h) (shadow_cr3 (shdw_pg_state info))"

definition shadow_inv :: "os_hooks \<Rightarrow> 'c guest_info \<Rightarrow> bool" where
  "shadow_inv h info \<longleftrightarrow>
     shadow_ok (V3_VAddr h) (guest_vas h info) (guest_frames info) (shd_pd h info) (host_mem info)"

text \<open>The set-up of a host and a guest: guest memory in whole pages, below 4 GB of host-physical memory.\<close>

definition setup_ok :: "os_hooks \<Rightarrow> addr_t \<Rightarrow> 'c guest_info \<Rightarrow> bool" where
  "setup_ok h off info \<longleftrightarrow> paged_map (mem_map info) \<and> direct_map h off
     \<and> (\<forall>a p. guest_pa_to_host_pa info a = Some p \<longrightarrow> unat p < 2 ^ 32)"

text \<open>A page the host allocates: in nobody's use, and below 2 GB.\<close>

definition fresh_page :: "os_hooks \<Rightarrow> 'c guest_info \<Rightarrow> addr_t \<Rightarrow> bool" where
  "fresh_page h info page \<longleftrightarrow> page_aligned page \<and> unat page < 2 ^ 31 \<and> V3_VAddr h page \<noteq> shd_pd h info
     \<and> page_num (V3_VAddr h page) \<notin> page_num ` guest_vas h info
     \<and> (\<forall>k < 1024. pt_present (sh_pde (shd_pd h info) (host_mem info) k)
          \<longrightarrow> sh_pt (V3_VAddr h) (shd_pd h info) (host_mem info) k \<noteq> V3_VAddr h page)"

text \<open>The invariant only depends on the memory, the memory map and the shadow directory.\<close>

lemma guest_cong:
  assumes "mem_map info' = mem_map info"
  shows "guest_pa_to_host_pa info' = guest_pa_to_host_pa info" "guest_pa_to_host_va h info' = guest_pa_to_host_va h info"
    "guest_vas h info' = guest_vas h info" "guest_frames info' = guest_frames info"
proof -
  show pa: "guest_pa_to_host_pa info' = guest_pa_to_host_pa info"
    using assms by (simp add: fun_eq_iff guest_pa_to_host_pa_def)
  then show va: "guest_pa_to_host_va h info' = guest_pa_to_host_va h info" by (simp add: fun_eq_iff guest_pa_to_host_va_def)
  show "guest_vas h info' = guest_vas h info" "guest_frames info' = guest_frames info"
    by (simp_all add: guest_vas_def guest_frames_def pa va)
qed

lemma shadow_inv_cong:
  assumes "mem_map info' = mem_map info" "shadow_cr3 (shdw_pg_state info') = shadow_cr3 (shdw_pg_state info)"
  shows "shadow_inv h info' \<longleftrightarrow>
     shadow_ok (V3_VAddr h) (guest_vas h info) (guest_frames info) (shd_pd h info) (host_mem info')"
  using guest_cong[OF assms(1)] assms(2) by (simp add: shadow_inv_def shd_pd_def)

lemma scast_T_ADDR_aligned: "page_aligned (scast (PDE32_T_ADDR e))"
proof -
  have "take_bit 12 (scast (PDE32_T_ADDR e) :: addr_t) = 0"
    by (rule bit_word_eqI) (auto simp: bit_simps PDE32_T_ADDR_def)
  then have "unat (take_bit 12 (scast (PDE32_T_ADDR e) :: addr_t)) = 0" by (simp only: unsigned_0)
  then show ?thesis unfolding page_aligned_def unsigned_take_bit_eq unfolding take_bit_eq_mod by simp
qed

lemma cr3_aligned: "page_aligned (c AND 0xfffff000)" for c :: addr_t
proof -
  have "take_bit 12 (c AND 0xfffff000) = 0" unfolding take_bit_and by simp
  then have "unat (take_bit 12 (c AND 0xfffff000)) = 0" by (simp only: unsigned_0)
  then show ?thesis unfolding page_aligned_def unsigned_take_bit_eq unfolding take_bit_eq_mod by simp
qed

text \<open>The entries of a guest table lie in guest memory.\<close>

lemma guest_table:
  assumes "setup_ok h off info" "guest_pa_to_host_va h info c = Some t" "page_aligned c"
  shows "page_aligned t" "k < 1024 \<Longrightarrow> slot t k \<in> guest_vas h info" "k < 1024 \<Longrightarrow> aligned4 (slot t k)"
proof -
  have s: "paged_map (mem_map info)" "direct_map h off" using assms(1) by (simp_all add: setup_ok_def)
  show al: "page_aligned t" using guest_va_offset[OF s assms(2)] assms(3) by (simp add: page_aligned_def)
  show "slot t k \<in> guest_vas h info" if "k < 1024"
  proof -
    have "unat c mod 4096 + 4 * k < 4096" using assms(3) that by (simp add: page_aligned_def)
    then have "guest_pa_to_host_va h info (c + of_nat (4 * k)) = Some (t + of_nat (4 * k))"
      using page_linear_guest_pa[OF s] assms(2) unfolding page_linear_def by blast
    then show ?thesis by (auto simp: guest_vas_def slot_def)
  qed
  show "k < 1024 \<Longrightarrow> aligned4 (slot t k)" by (rule slot_aligned4[OF al])
qed

text \<open>The page a fill maps belongs to the guest.\<close>

lemma fill_frame:
  assumes "setup_ok h off info" "get_shadow_addr_type info a = HOST_REGION_PHYSICAL_MEMORY"
  shows "guest_pa_to_host_pa info a = Some (get_shadow_addr info a)"
    "unat (PT32_BASE_ADDR (get_shadow_addr info a)) = page_num (get_shadow_addr info a)"
    "unat (PT32_BASE_ADDR (get_shadow_addr info a)) \<in> guest_frames info"
proof -
  show p: "guest_pa_to_host_pa info a = Some (get_shadow_addr info a)"
    using assms(2) by (auto simp: guest_pa_to_host_pa_region get_shadow_addr_type_def get_shadow_addr_def backing_def split: option.splits)
  then have lt: "unat (get_shadow_addr info a) < 2 ^ 32" using assms(1) by (simp add: setup_ok_def)
  have c: "unat (ucast (get_shadow_addr info a) :: uint_t) = unat (get_shadow_addr info a)"
    using lt by (simp add: unsigned_ucast_eq take_bit_nat_eq_self)
  show u: "unat (PT32_BASE_ADDR (get_shadow_addr info a)) = page_num (get_shadow_addr info a)"
    unfolding PT32_BASE_ADDR_def unsigned_drop_bit_eq page_num_def c using lt by (simp add: drop_bit_eq_div take_bit_nat_eq_self)
  show "unat (PT32_BASE_ADDR (get_shadow_addr info a)) \<in> guest_frames info"
    unfolding u using p by (auto simp: guest_frames_def)
qed

end
