(* ===== verification/V3_Shadow_Fault.thy ===== *)
theory V3_Shadow_Fault
  imports V3_Shadow_Inv
begin

text \<open>
  The fault handler keeps the isolation invariant, gives the guest no more than its own page tables give,
  and makes progress. The instruction emulator of hooked pages is assumed to keep the invariant.
\<close>

section \<open>Case analysis of the handlers\<close>

definition emulator_keeps :: "os_hooks \<Rightarrow> 'c guest_info emulator \<Rightarrow> bool" where
  "emulator_keeps h em \<longleftrightarrow> (\<forall>info gva f gpa priv ret info'.
     shadow_inv h info \<and> em info gva f gpa priv = (ret, info') \<longrightarrow> shadow_inv h info')"

lemma special_keeps:
  assumes "emulator_keeps h ew" "emulator_keeps h er" "shadow_inv h info"
    and "handle_special_page_fault ew er mem info gva gpa w = Some (ret, info')"
  shows "shadow_inv h info'"
proof -
  obtain reg hook where "mem_hook_dispatch ew er info gva gpa w hook = (ret, info') \<or> info' = info"
    using assms(4) by (auto simp: handle_special_page_fault_def split: option.splits host_region_type.splits)
  then show ?thesis
  proof
    assume d: "mem_hook_dispatch ew er info gva gpa w hook = (ret, info')"
    show ?thesis
    proof (cases w)
      case True
      then obtain r where "ew info gva (mh_write hook) gpa (mh_priv_data hook) = (r, info')"
        using d by (auto simp: mem_hook_dispatch_def split: prod.splits)
      then show ?thesis using assms(1,3) unfolding emulator_keeps_def by blast
    next
      case False
      then obtain r where "er info gva (mh_read hook) gpa (mh_priv_data hook) = (r, info')"
        using d by (auto simp: mem_hook_dispatch_def split: prod.splits)
      then show ?thesis using assms(2,3) unfolding emulator_keeps_def by blast
    qed
  qed (use assms(3) in simp)
qed

text \<open>A result that differs from \<open>info\<close> in the exceptions, the cache of tables or \<open>cr2\<close> at most, and in memory.\<close>

definition mem_result :: "'c guest_info \<Rightarrow> mem \<Rightarrow> 'c guest_info \<Rightarrow> bool" where
  "mem_result info m info' \<longleftrightarrow> mem_map info' = mem_map info
     \<and> shadow_cr3 (shdw_pg_state info') = shadow_cr3 (shdw_pg_state info)
     \<and> guest_cr3 (shdw_pg_state info') = guest_cr3 (shdw_pg_state info)
     \<and> mem_mode info' = mem_mode info \<and> cpu_mode info' = cpu_mode info
     \<and> cached_ptes (shdw_pg_state info') = cached_ptes (shdw_pg_state info) \<and> host_mem info' = m"

lemma mem_result_intros [simp]:
  "mem_result info (host_mem info) info"
  "mem_result info (host_mem info) (raise_mc info)"
  "mem_result info (host_mem info) (inject_guest_pf info fa ec)"
  "mem_result info m (info\<lparr>host_mem := m\<rparr>)"
  "mem_result info m (drop_cache b (info\<lparr>host_mem := m\<rparr>))"
  "mem_result info m (info\<lparr>shdw_pg_state := (shdw_pg_state info)\<lparr>cached_cr3 := x\<rparr>, host_mem := m\<rparr>)"
  by (simp_all add: mem_result_def raise_mc_def inject_guest_pf_def drop_cache_def)

lemma mem_result_inv:
  "mem_result info m info' \<Longrightarrow> shadow_inv h info' \<longleftrightarrow>
     shadow_ok (V3_VAddr h) (guest_vas h info) (guest_frames info) (shd_pd h info) m"
  by (simp add: mem_result_def shadow_inv_cong)

lemma mem_result_same: "mem_result info (host_mem info) info' \<Longrightarrow> shadow_inv h info \<Longrightarrow> shadow_inv h info'"
  by (simp only: mem_result_inv) (simp add: shadow_inv_def)

definition pte_gpa :: "mem \<Rightarrow> addr_t \<Rightarrow> addr_t \<Rightarrow> addr_t" where
  "pte_gpa m gpt fa = ucast (PTE32_T_ADDR (load32 m (pte_at gpt fa)) + PT32_PAGE_OFFSET fa)"

definition large_gpa :: "mem \<Rightarrow> addr_t \<Rightarrow> addr_t \<Rightarrow> addr_t" where
  "large_gpa m gpde fa = ucast (PDE32_4MB_T_ADDR (load32 m gpde) + PD32_4MB_PAGE_OFFSET fa)"

lemma special_fault_cases:
  "special_fault ew er info fa gpa ec = Some (ret, info') \<Longrightarrow>
     \<exists>r. handle_special_page_fault ew er info info fa gpa (pf_write ec) = Some (r, info')"
  by (auto simp: special_fault_def)

lemma pte32_fault_cases:
  fixes info :: "'c guest_info"
  defines "m \<equiv> host_mem info"
  assumes "handle_shadow_pte32_fault ew er info fa ec spt gpt = Some (ret, info')"
  obtains (same) "mem_result info m info'"
  | (fill) is_pt where "can_access_pte32 m spt fa ec = PT_ENTRY_NOT_PRESENT"
      "get_shadow_addr_type info (pte_gpa m gpt fa) = HOST_REGION_PHYSICAL_MEMORY"
      "in_pte_cache info (pte_gpa m gpt fa) = Some is_pt"
      "mem_result info (fst (fill_pte (pte_at spt fa) (pte_at gpt fa) (get_shadow_addr info (pte_gpa m gpt fa)) ec is_pt m)) info'"
  | (special) r where "handle_special_page_fault ew er info info fa (pte_gpa m gpt fa) (pf_write ec) = Some (r, info')"
  | (dirty) m1 where "can_access_pte32 m spt fa ec = PT_WRITE_ERROR" "m1 = put_flag 6 True (pte_at gpt fa) m"
      "mem_result info (put_flag 1 (get_flag 1 (pte_at gpt fa) m1) (pte_at spt fa) m1) info'"
  using assms(2) unfolding handle_shadow_pte32_fault_def Let_def m_def[symmetric] pte_gpa_def[symmetric] split_beta
  by (auto split: if_splits dest!: special_fault_cases simp: m_def)

lemma large_fault_cases:
  fixes info :: "'c guest_info"
  defines "m \<equiv> host_mem info"
  assumes "handle_large_pagefault32 ew er info fa ec spt gpde = Some (ret, info')"
  obtains (same) "mem_result info m info'"
  | (fill) is_pt where "can_access_pte32 m spt fa ec = PT_ENTRY_NOT_PRESENT"
      "get_shadow_addr_type info (large_gpa m gpde fa) = HOST_REGION_PHYSICAL_MEMORY"
      "in_pte_cache info (large_gpa m gpde fa) = Some is_pt"
      "mem_result info (fill_large_pte (pte_at spt fa) (get_shadow_addr info (large_gpa m gpde fa)) is_pt m) info'"
  | (special) r where "handle_special_page_fault ew er info info fa (large_gpa m gpde fa) (pf_write ec) = Some (r, info')"
  | (unprotect) "can_access_pte32 m spt fa ec = PT_WRITE_ERROR"
      "mem_result info (put_flag 1 True (pte_at spt fa) m) info'"
  using assms(2) unfolding handle_large_pagefault32_def Let_def m_def[symmetric] large_gpa_def[symmetric]
  by (auto split: if_splits dest!: special_fault_cases simp: m_def)

lemma pagefault32_cases:
  fixes info :: "'c guest_info" and h :: os_hooks
  defines "m \<equiv> host_mem info" and "spd \<equiv> shd_pd h info"
  assumes "handle_shadow_pagefault32 h ew er page info fa ec = Some (ret, info')"
  obtains (same) "mem_result info m info'"
  | (new) gpd t where "guest_pa_to_host_va h info (V3_PAddr h (CR3_TO_PDE32 (V3_VAddr h) (guest_cr3 (shdw_pg_state info)))) = Some gpd"
      "can_access_pde32 m spd fa ec = PT_ENTRY_NOT_PRESENT" "t = V3_VAddr h page"
      "mem_result info (fill_pde h (pde_at spd fa) (pde_at gpd fa) t (zero_page t m)) info'"
  | (pte) gpd gpt r where "guest_pa_to_host_va h info (V3_PAddr h (CR3_TO_PDE32 (V3_VAddr h) (guest_cr3 (shdw_pg_state info)))) = Some gpd"
      "can_access_pde32 m spd fa ec = PT_ACCESS_OK" "\<not> pde_large_page (load32 m (pde_at gpd fa))"
      "guest_pa_to_host_va h info (scast (PDE32_T_ADDR (load32 m (pde_at gpd fa)))) = Some gpt"
      "handle_shadow_pte32_fault ew er info fa ec (V3_VAddr h (scast (PDE32_T_ADDR (load32 m (pde_at spd fa))))) gpt = Some (r, info')"
  | (large) gpd r where "guest_pa_to_host_va h info (V3_PAddr h (CR3_TO_PDE32 (V3_VAddr h) (guest_cr3 (shdw_pg_state info)))) = Some gpd"
      "can_access_pde32 m spd fa ec = PT_ACCESS_OK" "pde_large_page (load32 m (pde_at gpd fa))"
      "handle_large_pagefault32 ew er info fa ec (V3_VAddr h (scast (PDE32_T_ADDR (load32 m (pde_at spd fa))))) (pde_at gpd fa) = Some (r, info')"
  | (dirty) gpd m1 where "guest_pa_to_host_va h info (V3_PAddr h (CR3_TO_PDE32 (V3_VAddr h) (guest_cr3 (shdw_pg_state info)))) = Some gpd"
      "can_access_pde32 m spd fa ec = PT_WRITE_ERROR" "m1 = put_flag 6 True (pde_at gpd fa) m"
      "mem_result info (put_flag 1 (get_flag 1 (pde_at gpd fa) m1) (pde_at spd fa) m1) info'"
  using assms(3) unfolding handle_shadow_pagefault32_def Let_def m_def[symmetric] shd_pd_def[symmetric] spd_def[symmetric]
    v3_create_new_shadow_pt32_def prod.case
  by (auto split: if_splits option.splits simp: m_def)

section \<open>Preservation\<close>

lemma access_status:
  "can_access_pte32 m pt fa ec = PT_ENTRY_NOT_PRESENT \<longleftrightarrow> \<not> pt_present (load32 m (pte_at pt fa))"
  "can_access_pde32 m pd fa ec = PT_ENTRY_NOT_PRESENT \<longleftrightarrow> \<not> pt_present (load32 m (pde_at pd fa))"
  "can_access_pte32 m pt fa ec = PT_WRITE_ERROR \<Longrightarrow> pt_present (load32 m (pte_at pt fa))"
  "can_access_pde32 m pd fa ec = PT_WRITE_ERROR \<Longrightarrow> pt_present (load32 m (pde_at pd fa))"
  "can_access_pde32 m pd fa ec = PT_ACCESS_OK \<Longrightarrow> pt_present (load32 m (pde_at pd fa))"
  by (auto simp: can_access_pte32_def can_access_pde32_def can_access_entry_def split: if_splits)

text \<open>An entry of a table under the shadow directory and an entry in guest memory.\<close>

lemma slots_separate:
  assumes "setup_ok h off info" "guest_pa_to_host_va h info c = Some t" "page_aligned c" "k < 1024"
    and "page_aligned b" "page_num b \<notin> page_num ` guest_vas h info" "l < 1024"
  shows "aligned4 (slot b l)" "aligned4 (slot t k)" "slot b l \<noteq> slot t k" "slot t k \<in> guest_vas h info"
  using guest_table[OF assms(1-3)] assms(4) slot_aligned4[OF assms(5,7)] slot_not_guest[OF assms(5-7)] by auto

lemma guest_dir_slot:
  assumes "setup_ok h off info"
    and "guest_pa_to_host_va h info (V3_PAddr h (CR3_TO_PDE32 (V3_VAddr h) c)) = Some gpd"
  shows "guest_pa_to_host_va h info (c AND 0xfffff000) = Some gpd"
  using assms by (simp add: setup_ok_def direct_map_def V3_PAddr_def V3_VAddr_def CR3_TO_PDE32_def)

lemma pte32_fault_keeps:
  fixes info :: "'c guest_info" and h :: os_hooks
  defines "va \<equiv> V3_VAddr h" and "pd \<equiv> shd_pd h info" and "m \<equiv> host_mem info"
  assumes s: "setup_ok h off info" and inv: "shadow_inv h info" and em: "emulator_keeps h ew" "emulator_keeps h er"
    and i: "i < 1024" "pt_present (sh_pde pd m i)"
    and g: "guest_pa_to_host_va h info c = Some gpt" "page_aligned c"
    and r: "handle_shadow_pte32_fault ew er info fa ec (sh_pt va pd m i) gpt = Some (ret, info')"
  shows "shadow_inv h info'"
proof -
  let ?G = "guest_vas h info" and ?H = "guest_frames info" and ?pt = "sh_pt va pd m i"
  let ?j = "unat (PTE32_INDEX fa)"
  have ok: "shadow_ok va ?G ?H pd m" using inv by (simp add: shadow_inv_def va_def pd_def m_def)
  note D = shadow_okD(4,6,8)[OF ok i]
  note sl = slots_separate[OF s g pte_at_slot(2)[of fa] D(1,2) pte_at_slot(2)[of fa], folded pte_at_slot(1)]
  have upd: "shadow_inv h info'" if "mem_result info m' info'" "same_except {pte_at ?pt fa, pte_at gpt fa} m m'"
      "pte_good ?H (load32 m' (pte_at ?pt fa))" for m'
  proof -
    have "shadow_ok va ?G ?H pd m'"
      by (rule shadow_ok_pte[OF ok i(1) pte_at_slot(2)[of fa] i(2)])
        (use that(2,3) sl(4) in \<open>auto simp: pte_at_slot(1)[symmetric] intro: same_except_mono\<close>)
    then show ?thesis using mem_result_inv[OF that(1)] by (simp add: va_def pd_def)
  qed
  from r show ?thesis
  proof (cases rule: pte32_fault_cases)
    case same
    then show ?thesis using inv by (rule mem_result_same)
  next
    case (fill is_pt)
    note e = fill_pte_effect[OF sl(1-3) prod.collapse[symmetric]]
    show ?thesis
      by (rule upd[OF fill(4)[folded m_def]]) (use e(1) fill_frame(3)[OF s fill(2)[folded m_def]] in \<open>auto simp: pte_good_def e(5)\<close>)
  next
    case (special r)
    then show ?thesis using special_keeps[OF em inv] by blast
  next
    case (dirty m1)
    have p: "pte_good ?H (load32 m (pte_at ?pt fa))" using D(3)[OF pte_at_slot(2)] by (simp add: pte_at_slot(1) sh_pte_def)
    show ?thesis
      by (rule upd[OF dirty(3)]) (use sl p in \<open>auto simp: dirty(2) put_simps pte_good_def m_def\<close>)
  qed
qed

lemma large_fault_keeps:
  fixes info :: "'c guest_info" and h :: os_hooks
  defines "va \<equiv> V3_VAddr h" and "pd \<equiv> shd_pd h info" and "m \<equiv> host_mem info"
  assumes s: "setup_ok h off info" and inv: "shadow_inv h info" and em: "emulator_keeps h ew" "emulator_keeps h er"
    and i: "i < 1024" "pt_present (sh_pde pd m i)"
    and r: "handle_large_pagefault32 ew er info fa ec (sh_pt va pd m i) gpde = Some (ret, info')"
  shows "shadow_inv h info'"
proof -
  let ?G = "guest_vas h info" and ?H = "guest_frames info" and ?pt = "sh_pt va pd m i"
  have ok: "shadow_ok va ?G ?H pd m" using inv by (simp add: shadow_inv_def va_def pd_def m_def)
  note D = shadow_okD(4,6,8)[OF ok i]
  have al: "aligned4 (pte_at ?pt fa)" unfolding pte_at_slot(1) by (rule slot_aligned4[OF D(1) pte_at_slot(2)])
  have upd: "shadow_inv h info'" if "mem_result info m' info'" "same_except {pte_at ?pt fa} m m'"
      "pte_good ?H (load32 m' (pte_at ?pt fa))" for m'
  proof -
    have "shadow_ok va ?G ?H pd m'"
      by (rule shadow_ok_pte[OF ok i(1) pte_at_slot(2)[of fa] i(2)])
        (use that(2,3) in \<open>auto simp: pte_at_slot(1)[symmetric] intro: same_except_mono\<close>)
    then show ?thesis using mem_result_inv[OF that(1)] by (simp add: va_def pd_def)
  qed
  from r show ?thesis
  proof (cases rule: large_fault_cases)
    case same
    then show ?thesis using inv by (rule mem_result_same)
  next
    case (fill is_pt)
    note e = fill_large_pte_effect[OF al refl]
    show ?thesis
      by (rule upd[OF fill(4)[folded m_def]]) (use e(1) fill_frame(3)[OF s fill(2)[folded m_def]] in \<open>auto simp: pte_good_def e(6)\<close>)
  next
    case (special r)
    then show ?thesis using special_keeps[OF em inv] by blast
  next
    case unprotect
    have p: "pte_good ?H (load32 m (pte_at ?pt fa))" using D(3)[OF pte_at_slot(2)] by (simp add: pte_at_slot(1) sh_pte_def)
    show ?thesis
      by (rule upd[OF unprotect(2)]) (use al p in \<open>auto simp: put_simps pte_good_def m_def\<close>)
  qed
qed

text \<open>The directory entry of a new table.\<close>

lemma unat_entry_lt: "unat e < 2 ^ 31 \<longleftrightarrow> unat (pt_base_addr e) < 2 ^ 19" for e :: uint_t
proof -
  have "unat (pt_base_addr e) = unat e div 4096 mod 2 ^ 20" unfolding pt_base_addr_def unat_bf_get by simp
  moreover have "unat e div 4096 < 2 ^ 20" using unat_lt32[of e] by (simp add: less_mult_imp_div_less)
  ultimately have "unat (pt_base_addr e) = unat e div 4096" by (simp only: mod_less)
  then show ?thesis by (simp add: div_less_iff_less_mult)
qed

lemma new_pde:
  assumes "direct_map h off" "page_aligned page" "unat page < 2 ^ 31"
    and e: "pt_base_addr e = PD32_BASE_ADDR (V3_PAddr h (V3_VAddr h page))"
  shows "unat e < 2 ^ 31" "V3_VAddr h (scast (PDE32_T_ADDR e)) = V3_VAddr h page" "PDE32_T_ADDR e = ucast page"
proof -
  have "V3_PAddr h (V3_VAddr h page) = page" using assms(1) by (simp add: direct_map_def V3_PAddr_def V3_VAddr_def)
  then have b: "pt_base_addr e = drop_bit 12 (ucast page)" using e by (simp add: PD32_BASE_ADDR_def)
  have u: "unat (ucast page :: uint_t) = unat page" using assms(3) by (simp add: unsigned_ucast_eq take_bit_nat_eq_self)
  have "unat (pt_base_addr e) = unat page div 4096"
    unfolding b unsigned_drop_bit_eq u using assms(3) by (simp add: take_bit_nat_eq_self drop_bit_eq_div)
  then show "unat e < 2 ^ 31" unfolding unat_entry_lt using assms(3) by (simp add: div_less_iff_less_mult)
  have "unat (PDE32_T_ADDR e) = unat (pt_base_addr e) * 4096"
    unfolding unat_T_ADDR(1) pt_base_addr_def unat_bf_get using unat_lt32[of e] by (simp add: less_mult_imp_div_less)
  also have "\<dots> = unat page"
    using \<open>unat (pt_base_addr e) = unat page div 4096\<close> assms(2) div_mult_mod_eq[of "unat page" 4096]
    unfolding page_aligned_def by linarith
  finally have t: "unat (PDE32_T_ADDR e) = unat page" .
  then show "PDE32_T_ADDR e = ucast page" using u by (simp add: word_unat_eq_iff)
  have "unat (scast (PDE32_T_ADDR e) :: addr_t) = unat page" using unat_scast_low(2)[of "PDE32_T_ADDR e"] t assms(3) by simp
  then have "scast (PDE32_T_ADDR e) = page" by (simp only: word_unat_eq_iff)
  then show "V3_VAddr h (scast (PDE32_T_ADDR e)) = V3_VAddr h page" by (simp only:)
qed

lemma pagefault32_keeps:
  fixes info :: "'c guest_info"
  assumes s: "setup_ok h off info" and inv: "shadow_inv h info" and em: "emulator_keeps h ew" "emulator_keeps h er"
    and fresh: "fresh_page h info page"
    and r: "handle_shadow_pagefault32 h ew er page info fa ec = Some (ret, info')"
  shows "shadow_inv h info'"
proof -
  let ?va = "V3_VAddr h" and ?pd = "shd_pd h info" and ?m = "host_mem info" and ?i = "unat (PDE32_INDEX fa)"
  let ?G = "guest_vas h info" and ?H = "guest_frames info"
  have ok: "shadow_ok ?va ?G ?H ?pd ?m" using inv by (simp add: shadow_inv_def)
  note D = shadow_okD[OF ok]
  have e: "load32 ?m (pde_at ?pd fa) = sh_pde ?pd ?m ?i" by (simp add: sh_pde_def pde_at_slot(1))
  have pt: "?va (scast (PDE32_T_ADDR (load32 ?m (pde_at ?pd fa)))) = sh_pt ?va ?pd ?m ?i" by (simp add: sh_pt_def e)
  have sl: "aligned4 (pde_at ?pd fa)" "aligned4 (pde_at gpd fa)" "pde_at ?pd fa \<noteq> pde_at gpd fa" "pde_at gpd fa \<in> ?G"
    if "guest_pa_to_host_va h info (V3_PAddr h (CR3_TO_PDE32 ?va (guest_cr3 (shdw_pg_state info)))) = Some gpd" for gpd
    using slots_separate[OF s guest_dir_slot[OF s that] cr3_aligned pde_at_slot(2)[of fa] D(1,2) pde_at_slot(2)[of fa]]
    unfolding pde_at_slot(1) by blast+
  from r show ?thesis
  proof (cases rule: pagefault32_cases)
    case same
    then show ?thesis using inv by (rule mem_result_same)
  next
    case (new gpd t)
    note sl = sl[OF new(1)]
    have t: "page_aligned t" "t \<noteq> ?pd" "page_num t \<notin> page_num ` ?G"
      "\<forall>k < 1024. pt_present (sh_pde ?pd ?m k) \<longrightarrow> sh_pt ?va ?pd ?m k \<noteq> t"
      using fresh s by (auto simp: fresh_page_def new(3) page_aligned_def setup_ok_def direct_map_def V3_VAddr_def unat_mod_add)
    let ?m' = "fill_pde h (pde_at ?pd fa) (pde_at gpd fa) t (zero_page t ?m)"
    note f = fill_pde_effect[OF sl(1-3) refl, where h = h and t = t and m = "zero_page t ?m"]
    have same: "same_except (insert (slot ?pd ?i) (?G \<union> {a. page_num a = page_num t})) ?m ?m'"
      by (rule same_except_mono[OF same_except_trans[OF zero_page_effect(1)[OF t(1), of ?m] f(1)]])
        (use sl(4) in \<open>auto simp: pde_at_slot(1)\<close>)
    have "load32 ?m' (slot t j) = 0" if j: "j < 1024" for j
    proof -
      have "slot t j \<notin> {pde_at ?pd fa, pde_at gpd fa}"
        using slot_neq[OF t(1) D(1) t(2) j pde_at_slot(2)[of fa]] slot_not_guest[OF t(1,3) j] sl(4) by (auto simp: pde_at_slot(1))
      then show ?thesis using same_slot[OF f(1) t(1) j] zero_page_effect(2)[OF t(1) j] by simp
    qed
    then have z: "\<forall>j < 1024. pte_good ?H (load32 ?m' (slot t j))" by (simp add: pte_good_def pt_present_def)
    have n: "unat (load32 ?m' (pde_at ?pd fa)) < 2 ^ 31" "?va (scast (PDE32_T_ADDR (load32 ?m' (pde_at ?pd fa)))) = t"
      using new_pde[of h off page "load32 ?m' (pde_at ?pd fa)"] f(6) fresh s
      by (simp_all add: new(3) fresh_page_def setup_ok_def)
    have "shadow_ok ?va ?G ?H ?pd ?m'"
      by (rule shadow_ok_pde[OF ok pde_at_slot(2) same t(1,2) _ refl])
        (use t(3,4) n f(3) z t(1,2) in \<open>auto simp: pde_at_slot(1) pde_good_def\<close>)
    then show ?thesis using mem_result_inv[OF new(4)] by simp
  next
    case (pte gpd gpt r)
    show ?thesis
      by (rule pte32_fault_keeps[OF s inv em pde_at_slot(2) _ pte(4) scast_T_ADDR_aligned pte(5)[unfolded pt]])
        (use access_status(5)[OF pte(2)] e in simp)
  next
    case (large gpd r)
    show ?thesis
      by (rule large_fault_keeps[OF s inv em pde_at_slot(2) _ large(4)[unfolded pt]])
        (use access_status(5)[OF large(2)] e in simp)
  next
    case (dirty gpd m1)
    note sl = sl[OF dirty(1)]
    let ?m' = "put_flag 1 (get_flag 1 (pde_at gpd fa) m1) (pde_at ?pd fa) m1"
    have p: "pt_present (sh_pde ?pd ?m ?i)" using access_status(4)[OF dirty(2)] e by simp
    let ?t = "sh_pt ?va ?pd ?m ?i"
    have same: "same_except (insert (slot ?pd ?i) (?G \<union> {a. page_num a = page_num ?t})) ?m ?m'"
      using sl by (auto simp: dirty(3) put_simps pde_at_slot(1))
    have se: "same_except {pde_at ?pd fa, pde_at gpd fa} ?m ?m'" using sl by (auto simp: dirty(3) put_simps)
    have "load32 ?m' (slot ?t j) = load32 ?m (slot ?t j)" if j: "j < 1024" for j
    proof -
      have "slot ?t j \<notin> {pde_at ?pd fa, pde_at gpd fa}"
        using slot_neq[OF D(4)[OF pde_at_slot(2) p] D(1) D(5)[OF pde_at_slot(2) p] j pde_at_slot(2)[of fa]]
          slot_not_guest[OF D(4,6)[OF pde_at_slot(2) p] j] sl(4) by (auto simp: pde_at_slot(1))
      then show ?thesis by (rule same_slot[OF se D(4)[OF pde_at_slot(2) p] j])
    qed
    then have z: "\<forall>j < 1024. pte_good ?H (load32 ?m' (slot ?t j))" using D(8)[OF pde_at_slot(2) p] by (simp add: sh_pte_def)
    have n: "load32 ?m' (pde_at ?pd fa) = bf_put 1 (get_flag 1 (pde_at gpd fa) m1) (sh_pde ?pd ?m ?i)"
      using sl by (simp add: dirty(3) load_put_same load_put_other e)
    have "pde_good ?va ?pd (load32 ?m' (pde_at ?pd fa)) \<and> ?va (scast (PDE32_T_ADDR (load32 ?m' (pde_at ?pd fa)))) = ?t"
      using D(3)[OF pde_at_slot(2) p] unfolding n pde_good_def unat_entry_lt by (simp add: put_simps PDE32_T_ADDR_def sh_pt_def)
    then have "shadow_ok ?va ?G ?H ?pd ?m'"
      by (intro shadow_ok_pde[OF ok pde_at_slot(2) same D(4,5)[OF pde_at_slot(2) p] _ refl])
        (use D(6,7)[OF pde_at_slot(2)] p z in \<open>auto simp: pde_at_slot(1)\<close>)
    then show ?thesis using mem_result_inv[OF dirty(4)] by simp
  qed
qed

section \<open>What the processor reaches\<close>

text \<open>Host memory by physical address, which is how the processor walks the tables.\<close>

definition phys_mem :: "os_hooks \<Rightarrow> 'c guest_info \<Rightarrow> mem" where
  "phys_mem h info p = host_mem info (V3_VAddr h p)"

lemma load32_phys:
  assumes "direct_map h off"
  shows "load32 (phys_mem h info) a = load32 (host_mem info) (V3_VAddr h a)"
  using assms by (simp add: load32_def phys_mem_def direct_map_def V3_VAddr_def add.assoc add.commute add.left_commute)

lemma covers_page_num:
  assumes "region_paged r"
  shows "covers r a \<longleftrightarrow> page_num (guest_start r) \<le> page_num a \<and> page_num a < page_num (guest_end r)"
proof -
  have "n \<le> k \<longleftrightarrow> n div 4096 \<le> k div 4096" if "n mod 4096 = 0" for n k :: nat
    using div_le_mono[of n k 4096] that div_mult_mod_eq[of n 4096] div_mult_mod_eq[of k 4096]
      mult_le_mono1[of "n div 4096" "k div 4096" 4096] by linarith
  note le = this
  have "guest_start r \<le> a \<longleftrightarrow> page_num (guest_start r) \<le> page_num a"
    using le[of "unat (guest_start r)" "unat a"] assms by (simp add: region_paged_def page_num_def word_le_nat_alt)
  moreover have "a < guest_end r \<longleftrightarrow> page_num a < page_num (guest_end r)"
    using le[of "unat (guest_end r)" "unat a"] assms by (simp add: region_paged_def page_num_def word_less_nat_alt not_le[symmetric])
  ultimately show ?thesis by (simp add: covers_def)
qed

lemma page_parts: "unat a = page_num a * 4096 + unat a mod 4096"
  by (simp add: page_num_def)

text \<open>A guest owns whole host pages.\<close>

lemma guest_page:
  assumes "setup_ok h off info" "guest_pa_to_host_pa info a = Some p" "k < 4096"
  shows "\<exists>a'. guest_pa_to_host_pa info a' = Some (of_nat (page_num p * 4096 + k))"
proof -
  have pm: "paged_map (mem_map info)" and mo: "map_ok (mem_map info)"
    using assms(1) by (simp_all add: setup_ok_def paged_map_def)
  obtain r where r: "r \<in> set (sm_regions (mem_map info))" "covers r a" "host_type r = HOST_REGION_PHYSICAL_MEMORY" "p = backing r a"
    using assms(2) guest_pa_to_host_pa_iff[OF mo, of a p] by auto
  have rp: "region_paged r" using pm r(1) by (auto simp: paged_map_def list_all_iff)
  define a0 where "a0 = a - of_nat (unat a mod 4096)"
  define a' where "a' = a0 + of_nat k"
  have "unat a0 = unat a - unat a mod 4096"
    unfolding a0_def by (subst unat_sub) (simp_all add: word_le_nat_alt unat_of_nat64 mod_less_eq_dividend)
  then have a0: "unat a0 = page_num a * 4096" using page_parts[of a] by linarith
  then have a0m: "unat a0 mod 4096 = 0" by simp
  then have a': "unat a' = page_num a * 4096 + k" using unat_same_page[of a0 k] assms(3) a0 by (simp add: a'_def)
  then have "page_num a' = page_num a" using assms(3) by (simp add: page_num_def[of a'])
  then have cov: "covers r a'" using r(2) covers_page_num[OF rp] by simp
  have "unat p mod 4096 = unat a mod 4096"
    using rp by (simp add: r(4) backing_def unat_mod_add unat_mod_diff region_paged_def)
  define p0 where "p0 = p - of_nat (unat p mod 4096)"
  have "unat p0 = unat p - unat p mod 4096"
    unfolding p0_def by (subst unat_sub) (simp_all add: word_le_nat_alt unat_of_nat64 mod_less_eq_dividend)
  then have p0: "unat p0 = page_num p * 4096" using page_parts[of p] by linarith
  then have "unat p0 mod 4096 = 0" by simp
  then have "unat (p0 + of_nat k) = page_num p * 4096 + k" using unat_same_page[of p0 k] assms(3) p0 by simp
  moreover have "backing r a' = p0 + of_nat k"
    using \<open>unat p mod 4096 = unat a mod 4096\<close> by (simp add: a'_def a0_def p0_def r(4) backing_def)
  ultimately have "unat (backing r a') = page_num p * 4096 + k" by simp
  moreover have "backing r a' = of_nat (unat (backing r a'))" by simp
  ultimately have "backing r a' = of_nat (page_num p * 4096 + k)" by (simp only:)
  moreover have "guest_pa_to_host_pa info a' = Some (backing r a')"
    using guest_pa_to_host_pa_iff[OF mo, of a' "backing r a'"] r(1,3) cov by blast
  ultimately show ?thesis by metis
qed

lemma unat_base: "unat (pt_base_addr e) = unat e div 2 ^ 12" for e :: uint_t
  unfolding pt_base_addr_def unat_bf_get using unat_lt32[of e] by (simp add: less_mult_imp_div_less)

lemma walk_directory:
  assumes d: "direct_map h off"
  shows "x86_pde (phys_mem h info) (shadow_cr3 (shdw_pg_state info) AND 0xfffff000) va
     = unat (sh_pde (shd_pd h info) (host_mem info) (va div 2 ^ 22 mod 2 ^ 10))"
proof -
  have va: "V3_VAddr h (x + y) = V3_VAddr h x + y" for x y using d by (simp add: direct_map_def V3_VAddr_def)
  show ?thesis unfolding x86_pde_def load32_phys[OF d] sh_pde_def slot_def shd_pd_def CR3_TO_PDE32_def va ..
qed

lemma walk_tables:
  fixes info :: "'c guest_info" and h :: os_hooks
  defines "va \<equiv> V3_VAddr h" and "pd \<equiv> shd_pd h info" and "m \<equiv> host_mem info"
  assumes d: "direct_map h off" and i: "i = x div 2 ^ 22 mod 2 ^ 10" and j: "j = x div 2 ^ 12 mod 2 ^ 10"
    and e: "pt_present (sh_pde pd m i)" "pde_good va pd (sh_pde pd m i)"
  shows "x86_walk (phys_mem h info) (shadow_cr3 (shdw_pg_state info) AND 0xfffff000) x =
    (if pt_present (sh_pte va pd m i j) then Some (unat (pt_base_addr (sh_pte va pd m i j)) * 4096 + x mod 4096) else None)"
proof -
  let ?e = "sh_pde pd m i"
  have vas: "va (y + z) = va y + z" for y z using d by (simp add: direct_map_def V3_VAddr_def va_def)
  have lt: "unat ?e < 2 ^ 31" and nl: "even (unat ?e div 2 ^ 7)" and o: "odd (unat ?e)"
    using e by (simp_all add: pde_good_def entry_flags_nat)
  have "(scast (PDE32_T_ADDR ?e) :: addr_t) = of_nat (unat ?e div 2 ^ 12 * 2 ^ 12)"
    using scast_base[of "PDE32_T_ADDR ?e" "unat ?e"] lt base_le[of "unat ?e" "2 ^ 12"] by (simp add: unat_T_ADDR)
  then have l: "load32 (phys_mem h info) (of_nat (unat ?e div 2 ^ 12 * 2 ^ 12) + 4 * of_nat j) = sh_pte va pd m i j"
    unfolding load32_phys[OF d] sh_pte_def slot_def sh_pt_def va_def[symmetric] vas m_def[symmetric] by (simp only:)
  show ?thesis
    unfolding x86_walk_def Let_def walk_directory[OF d] i[symmetric] j[symmetric] pd_def[symmetric] m_def[symmetric] l
    using nl o by (simp add: entry_flags_nat unat_base)
qed

lemma shadow_walk:
  assumes s: "setup_ok h off info" and inv: "shadow_inv h info"
    and w: "x86_walk (phys_mem h info) (shadow_cr3 (shdw_pg_state info) AND 0xfffff000) x = Some pa"
  shows "\<exists>a. guest_pa_to_host_pa info a = Some (of_nat pa)"
proof -
  let ?va = "V3_VAddr h" and ?pd = "shd_pd h info" and ?m = "host_mem info"
  define i where "i = x div 2 ^ 22 mod 2 ^ 10"
  define j where "j = x div 2 ^ 12 mod 2 ^ 10"
  have ij: "i < 1024" "j < 1024" by (simp_all add: i_def j_def)
  have d: "direct_map h off" using s by (simp add: setup_ok_def)
  note D = shadow_okD[OF inv[unfolded shadow_inv_def]]
  have p: "pt_present (sh_pde ?pd ?m i)"
    using w walk_directory[OF d, of info x] by (auto simp: x86_walk_def Let_def entry_flags_nat i_def split: if_splits)
  have t: "pt_present (sh_pte ?va ?pd ?m i j)" "pa = unat (pt_base_addr (sh_pte ?va ?pd ?m i j)) * 4096 + x mod 4096"
    using w walk_tables[OF d i_def j_def p D(3)[OF ij(1) p]] by (simp_all split: if_splits)
  then obtain a q where "guest_pa_to_host_pa info a = Some q" "unat (pt_base_addr (sh_pte ?va ?pd ?m i j)) = page_num q"
    using D(8)[OF ij(1) p ij(2)] by (auto simp: pte_good_def guest_frames_def)
  then show ?thesis using guest_page[OF s, of a q "x mod 4096"] t(2) by auto
qed

section \<open>Properties\<close>


text \<open>The paged guest of before with an empty shadow directory at host-physical 0x10000; 0x20000 is free.\<close>

definition demo_shadow_guest :: "unit guest_info" where
  "demo_shadow_guest = demo_paged_guest\<lparr>shdw_pg_state := (shdw_pg_state demo_paged_guest)\<lparr>shadow_cr3 := 0x10000, cached_ptes := Some demo_ht0\<rparr>\<rparr>"

definition demo_pf :: pf_error where
  "demo_pf = \<lparr>pf_present = False, pf_write = False, pf_user = False, pf_rsvd_access = False, pf_ifetch = False, pf_rsvd = 0\<rparr>"

lemma demo_hooks_addr [simp]: "V3_VAddr demo_hooks p = p + 0x100000" "V3_PAddr demo_hooks p = p - 0x100000"
  by (simp_all add: V3_VAddr_def V3_PAddr_def demo_hooks_def)

lemma demo_shadow_sel:
  "mem_map demo_shadow_guest = demo_guest_map" "mem_mode demo_shadow_guest = VIRTUAL_MEM" "cpu_mode demo_shadow_guest = PROTECTED"
  "shadow_cr3 (shdw_pg_state demo_shadow_guest) = 0x10000" "guest_cr3 (shdw_pg_state demo_shadow_guest) = 0x1000"
  "host_mem demo_shadow_guest = store32 (store32 (\<lambda>_. 0) 0x151004 0x2007) 0x15200c 0x3007"
  "shd_pd demo_hooks demo_shadow_guest = 0x110000"
  by (simp_all add: demo_shadow_guest_def demo_paged_guest_def demo_guest_def shd_pd_def CR3_TO_PDE32_def)

lemma demo_shadow_pa:
  "guest_pa_to_host_va h demo_shadow_guest = guest_pa_to_host_va h demo_guest"
  "guest_pa_to_host_pa demo_shadow_guest = guest_pa_to_host_pa demo_guest"
  using guest_cong(1,2)[of demo_shadow_guest demo_guest] by (simp_all add: demo_shadow_sel)

lemma demo_guest_pas: "guest_pa_to_host_pa demo_guest a = Some p \<Longrightarrow> unat a < 0x4000 \<and> p = a + 0x50000"
  by (auto simp: guest_pa_to_host_pa_region get_shadow_region_by_addr_def demo_guest_map_def demo_region_def
      init_shadow_region_def backing_def word_less_nat_alt split: if_splits)

lemma demo_setup_ok: "setup_ok demo_hooks 0x100000 demo_shadow_guest"
  using demo_guest_map_paged(1) demo_hooks_direct
  by (auto simp: setup_ok_def demo_shadow_sel demo_shadow_pa unat_word_ariths dest!: demo_guest_pas)

lemma demo_vas: "v \<in> guest_vas demo_hooks demo_shadow_guest \<Longrightarrow> 0x150 \<le> page_num v"
proof -
  assume "v \<in> guest_vas demo_hooks demo_shadow_guest"
  then obtain a p where "guest_pa_to_host_pa demo_guest a = Some p" "v = p + 0x100000"
    by (auto simp: guest_vas_def demo_shadow_pa guest_pa_to_host_va_def host_pa_to_host_va_def demo_hooks_def
        bind_eq_Some_conv split: if_splits)
  then have "unat a < 0x4000" "v = a + 0x150000" using demo_guest_pas[of a p] by auto
  then have "unat v = unat a + 0x150000" by (simp add: unat_word_ariths)
  then show ?thesis by (simp add: page_num_def)
qed

lemma demo_shadow_empty:
  assumes "page_aligned b" "page_num b < 0x150" "i < 1024"
  shows "load32 (host_mem demo_shadow_guest) (slot b i) = 0"
proof -
  have ne: "slot b i \<noteq> x" if "0x150 \<le> page_num x" for x using slot_page[OF assms(1,3)] assms(2) that by auto
  have "aligned4 0x151004" "aligned4 0x15200c" "0x150 \<le> page_num 0x151004" "0x150 \<le> page_num 0x15200c"
    by (simp_all add: aligned4_def page_num_def)
  then have "disjoint32 0x151004 (slot b i)" "disjoint32 0x15200c (slot b i)"
    using aligned4_disjoint[OF _ slot_aligned4[OF assms(1,3)]] ne by metis+
  then show ?thesis by (simp add: demo_shadow_sel mem_simps) (simp add: load32_def)
qed

lemma demo_shadow_inv: "shadow_inv demo_hooks demo_shadow_guest"
proof -
  have "sh_pde 0x110000 (host_mem demo_shadow_guest) i = 0" if "i < 1024" for i
    unfolding sh_pde_def by (rule demo_shadow_empty) (use that in \<open>simp_all add: page_aligned_def page_num_def\<close>)
  moreover have "page_num 0x110000 \<notin> page_num ` guest_vas demo_hooks demo_shadow_guest"
    using demo_vas by (force simp: page_num_def[of "0x110000"])
  ultimately show ?thesis
    by (simp add: shadow_inv_def shadow_ok_def demo_shadow_sel(7) page_aligned_def pt_present_def)
qed

lemma demo_fresh: "fresh_page demo_hooks demo_shadow_guest 0x20000"
proof -
  have "sh_pde 0x110000 (host_mem demo_shadow_guest) i = 0" if "i < 1024" for i
    unfolding sh_pde_def by (rule demo_shadow_empty) (use that in \<open>simp_all add: page_aligned_def page_num_def\<close>)
  moreover have "page_num 0x120000 \<notin> page_num ` guest_vas demo_hooks demo_shadow_guest"
    using demo_vas by (force simp: page_num_def[of "0x120000"])
  ultimately show ?thesis
    by (simp add: fresh_page_def demo_shadow_sel(7) page_aligned_def pt_present_def)
qed


end
