(* ===== verification/V3_Decoder.thy ===== *)
theory V3_Decoder
  imports V3_Guest
begin

text \<open>
  The operand decoder of \<^verbatim>\<open>vmm_decoder.h\<close> and the opcode helpers of \<^verbatim>\<open>vmm_decoder.c\<close>, next to the effective
  address that the processor computes for a 32-bit ModRM operand. An instruction is a list of bytes;
  a read past its end is undefined and gives \<open>None\<close>. A register operand is the address of the
  register in the bank at \<open>gprs\<close>, a memory operand is an address of the guest.
\<close>

section \<open>Opcodes\<close>

definition V3_OPCODE_MOV2CR :: "uchar_t list" where "V3_OPCODE_MOV2CR = [3, 0x0f, 0x22, 0x00]"
definition V3_OPCODE_MOVCR2 :: "uchar_t list" where "V3_OPCODE_MOVCR2 = [3, 0x0f, 0x20, 0x00]"
definition V3_OPCODE_INVLPG :: "uchar_t list" where "V3_OPCODE_INVLPG = [3, 0x0f, 0x01, 0x00]"
definition V3_OPCODE_CLTS :: "uchar_t list" where "V3_OPCODE_CLTS = [2, 0x0f, 0x06]"
definition V3_OPCODE_LMSW :: "uchar_t list" where "V3_OPCODE_LMSW = [3, 0x0f, 0x01, 0x00]"
definition V3_OPCODE_SMSW :: "uchar_t list" where "V3_OPCODE_SMSW = [3, 0x0f, 0x01, 0x00]"

text \<open>\<open>memcmp\<close>: the difference of the first bytes that differ, as glibc and the usual kernels give it.\<close>

fun memcmp :: "uchar_t list \<Rightarrow> uchar_t list \<Rightarrow> nat \<Rightarrow> int option" where
  "memcmp xs ys 0 = Some 0"
| "memcmp (x # xs) (y # ys) (Suc n) = (if x \<noteq> y then Some (uint x - uint y) else memcmp xs ys n)"
| "memcmp _ _ (Suc n) = None"

definition v3_opcode_cmp :: "uchar_t list \<Rightarrow> uchar_t list \<Rightarrow> int option" where
  "v3_opcode_cmp op1 op2 =
     (case (op1, op2) of
        (l1 # r1, l2 # r2) \<Rightarrow> if l1 \<noteq> l2 then Some (uint l1 - uint l2) else memcmp r1 r2 (unat l1)
      | _ \<Rightarrow> None)"

definition is_prefix_byte :: "uchar_t \<Rightarrow> bool" where
  "is_prefix_byte byte = (byte \<in> {0xF0, 0xF2, 0xF3, 0x2E, 0x36, 0x3E, 0x26, 0x64, 0x65, 0x66, 0x67})"

text \<open>The loop of \<open>v3_strip_rep_prefix\<close>: the buffer, the two counters and the flag.\<close>

function strip_loop :: "uchar_t list \<Rightarrow> nat \<Rightarrow> nat \<Rightarrow> nat \<Rightarrow> bool \<Rightarrow> uchar_t list" where
  "strip_loop instr len read_ctr write_ctr found =
     (if read_ctr < len
      then if \<not> found \<and> (instr ! read_ctr = 0xF2 \<or> instr ! read_ctr = 0xF3)
           then strip_loop instr len (read_ctr + 1) write_ctr True
           else strip_loop (instr[write_ctr := instr ! read_ctr]) len (read_ctr + 1) (write_ctr + 1) found
      else instr)"
  by auto
termination by (relation "measure (\<lambda>(instr, len, r, w, f). len - r)") auto

declare strip_loop.simps [simp del]

definition v3_strip_rep_prefix :: "uchar_t list \<Rightarrow> nat \<Rightarrow> uchar_t list option" where
  "v3_strip_rep_prefix instr len = (if len \<le> length instr then Some (strip_loop instr len 0 0 False) else None)"

section \<open>Addresses and registers\<close>

text \<open>The unsupported modes return -1, which is an address of all ones.\<close>

definition get_gpr_mask :: "'c guest_info \<Rightarrow> v3_reg_t" where
  "get_gpr_mask info = (case cpu_mode info of REAL \<Rightarrow> 0xffff | PROTECTED \<Rightarrow> 0xffffffff | _ \<Rightarrow> -1)"

definition get_addr_linear :: "'c guest_info \<Rightarrow> addr_t \<Rightarrow> v3_segment \<Rightarrow> addr_t" where
  "get_addr_linear info addr seg =
     (case cpu_mode info of
        REAL \<Rightarrow> addr + seg_base seg | PROTECTED \<Rightarrow> addr + seg_base seg | LONG \<Rightarrow> addr + seg_base seg | _ \<Rightarrow> -1)"

datatype v3_operand_type = INVALID_OPERAND | REG_OPERAND | MEM_OPERAND | IMM_OPERAND
datatype modrm_mode = INVALID_ADDR_TYPE | REG | DISP0 | DISP8 | DISP16 | DISP32
datatype reg_size = INVALID_REG_SIZE | REG64 | REG32 | REG16 | REG8

text \<open>The offsets in \<open>struct v3_gprs\<close>.\<close>

definition o_rdi :: addr_t where "o_rdi = 0"
definition o_rsi :: addr_t where "o_rsi = 8"
definition o_rbp :: addr_t where "o_rbp = 16"
definition o_rsp :: addr_t where "o_rsp = 24"
definition o_rbx :: addr_t where "o_rbx = 32"
definition o_rdx :: addr_t where "o_rdx = 40"
definition o_rcx :: addr_t where "o_rcx = 48"
definition o_rax :: addr_t where "o_rax = 56"

definition modrm_rm :: "uchar_t \<Rightarrow> uchar_t" where "modrm_rm b = bf_get 0 3 b"
definition modrm_reg :: "uchar_t \<Rightarrow> uchar_t" where "modrm_reg b = bf_get 3 3 b"
definition modrm_mod :: "uchar_t \<Rightarrow> uchar_t" where "modrm_mod b = bf_get 6 2 b"
definition sib_base :: "uchar_t \<Rightarrow> uchar_t" where "sib_base b = bf_get 0 3 b"
definition sib_index :: "uchar_t \<Rightarrow> uchar_t" where "sib_index b = bf_get 3 3 b"
definition sib_scale :: "uchar_t \<Rightarrow> uchar_t" where "sib_scale b = bf_get 6 2 b"

definition decode_register :: "addr_t \<Rightarrow> uchar_t \<Rightarrow> reg_size \<Rightarrow> addr_t" where
  "decode_register gprs reg_code reg_size =
     (if reg_code = 0 then gprs + o_rax
      else if reg_code = 1 then gprs + o_rcx
      else if reg_code = 2 then gprs + o_rdx
      else if reg_code = 3 then gprs + o_rbx
      else if reg_code = 4 then (if reg_size = REG8 then gprs + o_rax + 1 else gprs + o_rsp)
      else if reg_code = 5 then (if reg_size = REG8 then gprs + o_rcx + 1 else gprs + o_rbp)
      else if reg_code = 6 then (if reg_size = REG8 then gprs + o_rdx + 1 else gprs + o_rsi)
      else if reg_code = 7 then (if reg_size = REG8 then gprs + o_rbx + 1 else gprs + o_rdi)
      else 0)"

section \<open>Operands\<close>

definition byte_at :: "uchar_t list \<Rightarrow> nat \<Rightarrow> uchar_t option" where
  "byte_at instr i = (if i < length instr then Some (instr ! i) else None)"

text \<open>\<open>instr_cursor\<close> points to \<open>char\<close> in the 16-bit decoder, so that a 16-bit displacement is one byte, sign
  extended to 16 bits and then taken as unsigned.\<close>

definition add_disp16 :: "modrm_mode \<Rightarrow> uchar_t list \<Rightarrow> nat \<Rightarrow> addr_t \<Rightarrow> (addr_t \<times> nat) option" where
  "add_disp16 mod_mode instr cursor base_addr =
     (case mod_mode of
        DISP8 \<Rightarrow> map_option (\<lambda>b. (base_addr + ucast b, cursor + 1)) (byte_at instr cursor)
      | DISP16 \<Rightarrow> map_option (\<lambda>b. (base_addr + ucast (scast b :: ushort_t), cursor + 2)) (byte_at instr cursor)
      | _ \<Rightarrow> Some (base_addr, cursor))"

definition rm16_base :: "mem \<Rightarrow> addr_t \<Rightarrow> uchar_t \<Rightarrow> uchar_t \<Rightarrow> modrm_mode \<Rightarrow> addr_t \<times> modrm_mode" where
  "rm16_base m gprs md rm mod_mode =
     (if rm = 0 then (load64 m (gprs + o_rbx) + load64 m (gprs + o_rsi), mod_mode)
      else if rm = 1 then (load64 m (gprs + o_rbx) + load64 m (gprs + o_rdi), mod_mode)
      else if rm = 2 then (load64 m (gprs + o_rbp) + load64 m (gprs + o_rsi), mod_mode)
      else if rm = 3 then (load64 m (gprs + o_rbp) + load64 m (gprs + o_rdi), mod_mode)
      else if rm = 4 then (load64 m (gprs + o_rsi), mod_mode)
      else if rm = 5 then (load64 m (gprs + o_rdi), mod_mode)
      else if rm = 6 then (if md = 0 then (0, DISP16) else (load64 m (gprs + o_rbp), mod_mode))
      else (load64 m (gprs + o_rbx), mod_mode))"

text \<open>The result has the operand type, the two operands and what is added to \<open>*offset\<close>.\<close>

definition decode_operands16 ::
  "mem \<Rightarrow> addr_t \<Rightarrow> uchar_t list \<Rightarrow> reg_size \<Rightarrow> (v3_operand_type \<times> addr_t \<times> addr_t \<times> nat) option" where
  "decode_operands16 m gprs modrm_instr reg_size =
     (case byte_at modrm_instr 0 of None \<Rightarrow> None
      | Some modrm \<Rightarrow>
          let second_operand = decode_register gprs (modrm_reg modrm) reg_size
          in if modrm_mod modrm = 3
             then Some (REG_OPERAND, decode_register gprs (modrm_rm modrm) reg_size, second_operand, 1)
             else let mod_mode = (if modrm_mod modrm = 0 then DISP0 else if modrm_mod modrm = 1 then DISP8 else DISP16);
                      (base_addr, mod_mode) = rm16_base m gprs (modrm_mod modrm) (modrm_rm modrm) mod_mode
                  in (case add_disp16 mod_mode modrm_instr 1 base_addr of None \<Rightarrow> None
                      | Some (base_addr, cursor) \<Rightarrow> Some (MEM_OPERAND, base_addr, second_operand, cursor)))"

definition add_disp32 :: "modrm_mode \<Rightarrow> uchar_t list \<Rightarrow> nat \<Rightarrow> addr_t \<Rightarrow> (addr_t \<times> nat) option" where
  "add_disp32 mod_mode instr cursor base_addr =
     (case mod_mode of
        DISP8 \<Rightarrow> map_option (\<lambda>b. (base_addr + ucast b, cursor + 1)) (byte_at instr cursor)
      | DISP32 \<Rightarrow> map_option (\<lambda>b. (base_addr + ucast (ucast b :: uint_t), cursor + 4)) (byte_at instr cursor)
      | _ \<Rightarrow> Some (base_addr, cursor))"

text \<open>The switch over \<open>rm\<close>; the last component is \<open>has_sib_byte\<close>.\<close>

definition rm32_base :: "mem \<Rightarrow> addr_t \<Rightarrow> uchar_t \<Rightarrow> uchar_t \<Rightarrow> modrm_mode \<Rightarrow> addr_t \<times> modrm_mode \<times> bool" where
  "rm32_base m gprs md rm mod_mode =
     (if rm = 0 then (load64 m (gprs + o_rax), mod_mode, False)
      else if rm = 1 then (load64 m (gprs + o_rcx), mod_mode, False)
      else if rm = 2 then (load64 m (gprs + o_rdx), mod_mode, False)
      else if rm = 3 then (load64 m (gprs + o_rbx), mod_mode, False)
      else if rm = 4 then (0, mod_mode, True)
      else if rm = 5 then (if md = 0 then (0, DISP32, False) else (load64 m (gprs + o_rbp), mod_mode, False))
      else if rm = 6 then (load64 m (gprs + o_rsi), mod_mode, False)
      else (load64 m (gprs + o_rdi), mod_mode, False))"

definition sib_addr :: "mem \<Rightarrow> addr_t \<Rightarrow> uchar_t \<Rightarrow> uchar_t \<Rightarrow> addr_t" where
  "sib_addr m gprs md sib =
     (let scale = (if sib_scale sib = 1 then 2 else if sib_scale sib = 2 then 4 else if sib_scale sib = 3 then 8 else 1);
          i = sib_index sib;
          b = sib_base sib;
          base_addr =
            (if i = 0 then load64 m (gprs + o_rax)
             else if i = 1 then load64 m (gprs + o_rcx)
             else if i = 2 then load64 m (gprs + o_rdx)
             else if i = 3 then load64 m (gprs + o_rbx)
             else if i = 4 then 0
             else if i = 5 then load64 m (gprs + o_rbp)
             else if i = 6 then load64 m (gprs + o_rsi)
             else load64 m (gprs + o_rdi));
          base_addr = base_addr * scale
      in if b = 0 then base_addr + load64 m (gprs + o_rax)
         else if b = 1 then base_addr + load64 m (gprs + o_rcx)
         else if b = 2 then base_addr + load64 m (gprs + o_rdx)
         else if b = 3 then base_addr + load64 m (gprs + o_rbx)
         else if b = 4 then base_addr + load64 m (gprs + o_rsp)
         else if b = 5 then (if md \<noteq> 0 then base_addr + load64 m (gprs + o_rbp) else base_addr)
         else if b = 6 then base_addr + load64 m (gprs + o_rsi)
         else base_addr + load64 m (gprs + o_rdi))"

text \<open>The cursor has passed the ModRM byte when the SIB byte is read, and is moved once more before.\<close>

definition decode_operands32 ::
  "mem \<Rightarrow> addr_t \<Rightarrow> uchar_t list \<Rightarrow> reg_size \<Rightarrow> (v3_operand_type \<times> addr_t \<times> addr_t \<times> nat) option" where
  "decode_operands32 m gprs modrm_instr reg_size =
     (case byte_at modrm_instr 0 of None \<Rightarrow> None
      | Some modrm \<Rightarrow>
          let second_operand = decode_register gprs (modrm_reg modrm) reg_size
          in if modrm_mod modrm = 3
             then Some (REG_OPERAND, decode_register gprs (modrm_rm modrm) reg_size, second_operand, 1)
             else let mod_mode = (if modrm_mod modrm = 0 then DISP0 else if modrm_mod modrm = 1 then DISP8 else DISP32);
                      (base_addr, mod_mode, has_sib_byte) = rm32_base m gprs (modrm_mod modrm) (modrm_rm modrm) mod_mode
                  in (case (if has_sib_byte
                            then map_option (\<lambda>sib. (sib_addr m gprs (modrm_mod modrm) sib, 3)) (byte_at modrm_instr 2)
                            else Some (base_addr, 1)) of None \<Rightarrow> None
                      | Some (base_addr, cursor) \<Rightarrow>
                          (case add_disp32 mod_mode modrm_instr cursor base_addr of None \<Rightarrow> None
                           | Some (base_addr, cursor) \<Rightarrow> Some (MEM_OPERAND, base_addr, second_operand, cursor))))"

section \<open>The opcode helpers\<close>

lemma memcmp_eq: "n \<le> length xs \<Longrightarrow> n \<le> length ys \<Longrightarrow> memcmp xs ys n = Some 0 \<longleftrightarrow> take n xs = take n ys"
  by (induction xs ys n rule: memcmp.induct) (auto simp: word_uint_eq_iff)

text \<open>The buffer of the loop after \<open>read_ctr\<close> steps: the prefix is either copied onto itself or, after the
  first repeat prefix, shifted by one byte.\<close>

lemma strip_loop_found:
  "len \<le> length instr \<Longrightarrow> w < r \<Longrightarrow> r \<le> len \<Longrightarrow>
   strip_loop instr len r w True = take w instr @ drop r (take len instr) @ drop (w + (len - r)) instr"
proof (induction "len - r" arbitrary: instr r w)
  case 0
  then show ?case by (subst strip_loop.simps) simp
next
  case (Suc k)
  then have r: "r < len" by simp
  let ?i = "instr[w := instr ! r]"
  have "strip_loop ?i len (Suc r) (Suc w) True = take (Suc w) ?i @ drop (Suc r) (take len ?i) @ drop (Suc w + (len - Suc r)) ?i"
    using Suc r by (intro Suc.hyps(1)) auto
  moreover have "take (Suc w) ?i = take w instr @ [instr ! r]"
    using Suc.prems r by (simp add: take_Suc_conv_app_nth)
  moreover have "[instr ! r] @ drop (Suc r) (take len ?i) = drop r (take len instr)"
    using Suc.prems r Cons_nth_drop_Suc[of r "take len instr"] by (simp add: take_update_swap)
  moreover have "drop (Suc w + (len - Suc r)) ?i = drop (w + (len - r)) instr"
    using Suc.prems r by (simp add: Suc_diff_Suc)
  ultimately have "strip_loop ?i len (Suc r) (Suc w) True = take w instr @ drop r (take len instr) @ drop (w + (len - r)) instr"
    by (metis append.assoc)
  then show ?case using r by (subst strip_loop.simps) simp
qed

lemma while_split:
  "\<forall>x \<in> set xs. P x \<Longrightarrow> \<not> P y \<Longrightarrow> dropWhile P (xs @ y # ys) = y # ys"
  "\<forall>x \<in> set xs. P x \<Longrightarrow> \<not> P y \<Longrightarrow> takeWhile P (xs @ y # ys) = xs"
  by (simp_all add: dropWhile_append2 takeWhile_append2)

lemma strip_loop_start:
  assumes "len \<le> length instr" "r \<le> len" "\<forall>b \<in> set (take r instr). b \<notin> {0xF2, 0xF3}"
  shows "strip_loop instr len r r False =
    (case dropWhile (\<lambda>b. b \<notin> {0xF2, 0xF3}) (take len instr) of
       [] \<Rightarrow> instr
     | _ # rest \<Rightarrow> takeWhile (\<lambda>b. b \<notin> {0xF2, 0xF3}) (take len instr) @ rest @ drop (len - 1) instr)"
  using assms
proof (induction "len - r" arbitrary: r)
  case 0
  then have "r = len" by simp
  with 0 show ?case by (subst strip_loop.simps) (simp add: dropWhile_eq_Nil_conv[THEN iffD2])
next
  case (Suc k)
  then have r: "r < len" "r < length instr" by simp_all
  show ?case
  proof (cases "instr ! r \<in> {0xF2, 0xF3}")
    case False
    have "take (Suc r) instr = take r instr @ [instr ! r]" using r(2) by (rule take_Suc_conv_app_nth)
    then have "\<forall>b \<in> set (take (Suc r) instr). b \<notin> {0xF2, 0xF3}" using Suc.prems(3) False by auto
    then show ?thesis using Suc.hyps(1)[of "Suc r"] Suc.prems Suc.hyps(2) r False by (subst strip_loop.simps) simp
  next
    case True
    have t: "take len instr = take r instr @ instr ! r # drop (Suc r) (take len instr)"
      using r id_take_nth_drop[of r "take len instr"] by (simp add: min_def)
    note d = while_split[of "take r instr" "\<lambda>b. b \<notin> {0xF2, 0xF3}" "instr ! r" "drop (Suc r) (take len instr)", folded t]
    have "strip_loop instr len r r False = strip_loop instr len (Suc r) r True"
      using True r by (subst strip_loop.simps) auto
    also have "\<dots> = take r instr @ drop (Suc r) (take len instr) @ drop (r + (len - Suc r)) instr"
      using r Suc.prems by (intro strip_loop_found) auto
    finally show ?thesis using r d(1,2) Suc.prems(3) True by simp
  qed
qed

text \<open>\<open>v3_strip_rep_prefix\<close> removes the first repeat prefix byte of the buffer, wherever it stands, and leaves the
  last byte of the buffer behind a second time; a buffer without one is not changed.\<close>

lemma v3_strip_rep_prefix_spec:
  assumes "len \<le> length instr"
  shows "v3_strip_rep_prefix instr len = Some
    (case dropWhile (\<lambda>b. b \<notin> {0xF2, 0xF3}) (take len instr) of
       [] \<Rightarrow> instr
     | _ # rest \<Rightarrow> takeWhile (\<lambda>b. b \<notin> {0xF2, 0xF3}) (take len instr) @ rest @ drop (len - 1) instr)"
  using strip_loop_start[of len instr 0] assms by (simp add: v3_strip_rep_prefix_def)

section \<open>The effective address of the processor\<close>

text \<open>The value of a 32-bit register, by its code in the instruction.\<close>

definition x86_reg :: "mem \<Rightarrow> addr_t \<Rightarrow> nat \<Rightarrow> nat" where
  "x86_reg m gprs c = unat (load64 m (gprs + of_nat (8 * (7 - c)))) mod 2 ^ 32"

definition x86_le :: "uchar_t list \<Rightarrow> nat \<Rightarrow> nat" where
  "x86_le bs i = unat (bs ! i) + 256 * (unat (bs ! (i + 1)) + 256 * (unat (bs ! (i + 2)) + 256 * unat (bs ! (i + 3))))"

definition x86_sext8 :: "uchar_t \<Rightarrow> nat" where
  "x86_sext8 b = (if unat b < 128 then unat b else unat b + 0xffffff00)"

text \<open>Length of the displacement of a memory operand with \<open>mod = md\<close>, \<open>rm\<close> and SIB byte \<open>s\<close>.\<close>

definition x86_disp_len :: "nat \<Rightarrow> nat \<Rightarrow> nat \<Rightarrow> nat" where
  "x86_disp_len md rm s =
     (if md = 1 then 1 else if md = 2 \<or> md = 0 \<and> (if rm = 4 then s mod 8 = 5 else rm = 5) then 4 else 0)"

text \<open>Effective address and encoded length of a memory operand in 32-bit mode: ModRM, SIB and
  displacement as the architecture manuals define them.\<close>

definition x86_operand :: "mem \<Rightarrow> addr_t \<Rightarrow> uchar_t list \<Rightarrow> nat \<times> nat" where
  "x86_operand m gprs bs =
     (let md = unat (bs ! 0) div 64; rm = unat (bs ! 0) mod 8; s = unat (bs ! 1);
          pos = (if rm = 4 then 2 else 1);
          dl = x86_disp_len md rm s;
          base = (if rm = 4 then if s mod 8 = 5 \<and> md = 0 then 0 else x86_reg m gprs (s mod 8)
                  else if rm = 5 \<and> md = 0 then 0 else x86_reg m gprs rm);
          index = (if rm = 4 \<and> s div 8 mod 8 \<noteq> 4 then x86_reg m gprs (s div 8 mod 8) * 2 ^ (s div 64) else 0);
          disp = (if dl = 1 then x86_sext8 (bs ! pos) else if dl = 4 then x86_le bs pos else 0)
      in ((base + index + disp) mod 2 ^ 32, pos + dl))"

lemma x86_operand_len:
  "snd (x86_operand m gprs bs) = (if unat (bs ! 0) mod 8 = 4 then 2 else 1)
     + x86_disp_len (unat (bs ! 0) div 64) (unat (bs ! 0) mod 8) (unat (bs ! 1))"
  by (simp only: x86_operand_def Let_def snd_conv)

lemma modrm_fields:
  "unat (modrm_rm b) = unat b mod 8" "unat (modrm_mod b) = unat b div 64" "unat (modrm_reg b) = unat b div 8 mod 8"
  using unat_lt8[of b] by (simp_all add: modrm_rm_def modrm_mod_def modrm_reg_def unat_bf_get)

lemma uchar_eq_iff: "b = numeral k \<longleftrightarrow> unat b = unat (numeral k :: uchar_t)" "b = 0 \<longleftrightarrow> unat b = 0" "b = 1 \<longleftrightarrow> unat b = 1"
  for b :: uchar_t
  by (simp_all add: word_unat_eq_iff)

lemma rm32_base_reg:
  assumes "rm < 8" "rm \<noteq> 4" "\<not> (rm = 5 \<and> md = 0)"
  shows "\<exists>v. (\<forall>mm. rm32_base m gprs md rm mm = (v, mm, False)) \<and> unat v mod 2 ^ 32 = x86_reg m gprs (unat rm)"
proof -
  have "unat rm \<in> {0, 1, 2, 3, 5, 6, 7}" using assms(1,2) unat_mono[of rm 8] by (auto simp: word_less_nat_alt uchar_eq_iff)
  then show ?thesis using assms(3)
    by (auto simp: rm32_base_def x86_reg_def uchar_eq_iff o_rax_def o_rcx_def o_rdx_def o_rbx_def o_rbp_def o_rsi_def o_rdi_def)
qed

lemma mod_shift_iff: "k < n \<Longrightarrow> (a + k) mod n = a mod n \<longleftrightarrow> k = 0" for a k n :: nat
  by (auto simp: mod_eq_dvd_iff_nat dest: dvd_imp_le)

lemma add_disp_mod: "unat (v + ucast d) mod 2 ^ 32 = (unat v mod 2 ^ 32 + unat d) mod 2 ^ 32" for v :: addr_t and d :: uchar_t
  by (simp add: unat_word_ariths unat_ucast_up mod_mod_cancel mod_add_left_eq)

lemma disp8_right: "(r + unat d) mod 2 ^ 32 = (r + x86_sext8 d) mod 2 ^ 32 \<longleftrightarrow> unat d < 128"
  using mod_shift_iff[of "0xffffff00" "2 ^ 32" "r + unat d"] by (auto simp: x86_sext8_def algebra_simps)

lemma disp32_right:
  "(r + unat (bs ! i)) mod 2 ^ 32 = (r + x86_le bs i) mod 2 ^ 32 \<longleftrightarrow> bs ! (i + 1) = 0 \<and> bs ! (i + 2) = 0 \<and> bs ! (i + 3) = 0"
proof -
  let ?x = "256 * (unat (bs ! (i + 1)) + 256 * (unat (bs ! (i + 2)) + 256 * unat (bs ! (i + 3))))"
  have "?x < 2 ^ 32" using unat_lt8[of "bs ! (i + 1)"] unat_lt8[of "bs ! (i + 2)"] unat_lt8[of "bs ! (i + 3)"] by simp
  then show ?thesis
    using mod_shift_iff[of ?x "2 ^ 32" "r + unat (bs ! i)"] unfolding x86_le_def by (auto simp: add.assoc unat_eq_0)
qed

definition disp_right :: "nat \<Rightarrow> uchar_t list \<Rightarrow> bool" where
  "disp_right dl d \<longleftrightarrow> (dl = 1 \<longrightarrow> unat (d ! 0) < 128) \<and> (dl = 4 \<longrightarrow> d ! 1 = 0 \<and> d ! 2 = 0 \<and> d ! 3 = 0)"

lemma add_disp32_exact:
  fixes v :: addr_t
  assumes "dl \<in> {0, 1, 4}" "mm = (if dl = 1 then DISP8 else if dl = 4 then DISP32 else DISP0)" "rest \<noteq> []"
  shows "\<exists>a. add_disp32 mm (b # rest) 1 v = Some (a, 1 + dl)
    \<and> (unat a mod 2 ^ 32 = (unat v mod 2 ^ 32 + (if dl = 1 then x86_sext8 (rest ! 0) else if dl = 4 then x86_le (b # rest) 1 else 0)) mod 2 ^ 32
       \<longleftrightarrow> disp_right dl rest)"
proof -
  consider "dl = 0" | "dl = 1" | "dl = 4" using assms(1) by blast
  then show ?thesis
  proof cases
    case 2
    then show ?thesis using assms(2,3) disp8_right[of "unat v mod 2 ^ 32" "rest ! 0"] add_disp_mod[of v "rest ! 0"]
      by (simp add: add_disp32_def byte_at_def disp_right_def)
  next
    case 3
    have "(ucast (ucast (rest ! 0) :: uint_t) :: addr_t) = ucast (rest ! 0)" by (simp add: word_unat_eq_iff unat_ucast_up)
    with 3 show ?thesis using assms(2,3) disp32_right[of "unat v mod 2 ^ 32" "b # rest" 1] add_disp_mod[of v "rest ! 0"]
      by (simp add: add_disp32_def byte_at_def disp_right_def numeral_2_eq_2)
  qed (use assms in \<open>simp add: add_disp32_def disp_right_def\<close>)
qed

section \<open>Properties\<close>

text \<open>C11: For a memory operand without a SIB byte the decoder always finds the encoded length, and it finds the
  effective address of the processor exactly when the displacement, if there is one, is a value from 0
  to 127 in one byte, or from 0 to 255 in four bytes: larger ones lose their upper bytes, and negative
  one-byte displacements are taken as positive.\<close>

theorem decode_operands32_exact:
  assumes md: "modrm_mod b \<noteq> 3" and rm: "modrm_rm b \<noteq> 4" and len: "rest \<noteq> []"
  shows "\<exists>a. decode_operands32 m gprs (b # rest) sz =
      Some (MEM_OPERAND, a, decode_register gprs (modrm_reg b) sz, snd (x86_operand m gprs (b # rest)))
    \<and> (unat a mod 2 ^ 32 = fst (x86_operand m gprs (b # rest)) \<longleftrightarrow>
        disp_right (x86_disp_len (unat (modrm_mod b)) (unat (modrm_rm b)) 0) rest)"
proof -
  let ?dl = "x86_disp_len (unat (modrm_mod b)) (unat (modrm_rm b)) 0"
  have md3: "unat b div 64 < 3" using md unat_lt8[of b] by (simp add: uchar_eq_iff modrm_fields)
  have rm4: "unat b mod 8 \<noteq> 4" using rm by (simp add: uchar_eq_iff modrm_fields)
  have dl: "?dl \<in> {0, 1, 4}" by (simp add: x86_disp_len_def)
  have dl': "x86_disp_len (unat b div 64) (unat b mod 8) s = ?dl" for s using rm4 by (simp add: x86_disp_len_def modrm_fields)
  define mm where "mm = (if ?dl = 1 then DISP8 else if ?dl = 4 then DISP32 else DISP0)"
  let ?m0 = "if modrm_mod b = 0 then DISP0 else if modrm_mod b = 1 then DISP8 else DISP32"
  have "modrm_rm b < 8" by (simp add: word_less_nat_alt modrm_fields)
  then obtain v where v: "rm32_base m gprs (modrm_mod b) (modrm_rm b) ?m0 = (v, mm, False)"
    "unat v mod 2 ^ 32 = (if unat b mod 8 = 5 \<and> unat b div 64 = 0 then 0 else x86_reg m gprs (unat b mod 8))"
  proof (cases "modrm_rm b = 5 \<and> modrm_mod b = 0")
    case True
    then show ?thesis using that by (simp add: rm32_base_def mm_def x86_disp_len_def modrm_fields[symmetric])
  next
    case False
    then have "?m0 = mm" using md3 rm4
      by (auto simp: mm_def x86_disp_len_def uchar_eq_iff modrm_fields)
    moreover have "\<not> (unat b mod 8 = 5 \<and> unat b div 64 = 0)" using False by (simp add: uchar_eq_iff modrm_fields)
    ultimately show ?thesis using rm32_base_reg[OF \<open>modrm_rm b < 8\<close> rm False, of m gprs] that by (auto simp: modrm_fields)
  qed
  obtain a where a: "add_disp32 mm (b # rest) 1 v = Some (a, 1 + ?dl)"
    "unat a mod 2 ^ 32 = (unat v mod 2 ^ 32 + (if ?dl = 1 then x86_sext8 (rest ! 0) else if ?dl = 4 then x86_le (b # rest) 1 else 0)) mod 2 ^ 32
       \<longleftrightarrow> disp_right ?dl rest"
    using add_disp32_exact[OF dl mm_def len, of b v] by blast
  have "decode_operands32 m gprs (b # rest) sz = Some (MEM_OPERAND, a, decode_register gprs (modrm_reg b) sz, 1 + ?dl)"
    using md a(1) v(1) by (simp add: decode_operands32_def byte_at_def)
  moreover have "x86_operand m gprs (b # rest) = ((unat v mod 2 ^ 32 +
      (if ?dl = 1 then x86_sext8 (rest ! 0) else if ?dl = 4 then x86_le (b # rest) 1 else 0)) mod 2 ^ 32, 1 + ?dl)"
    unfolding x86_operand_def Let_def nth_Cons_0 dl' v(2) using rm4 by simp
  ultimately show ?thesis using a(2) by simp
qed

definition demo_regs :: mem where "demo_regs = store32 (\<lambda>_. 0) 0x1038 0x403abc"

lemma demo_regs_rax: "x86_reg demo_regs 0x1000 0 = 0x403abc"
proof -
  have "load32 demo_regs 0x103c = 0" unfolding demo_regs_def
    by (subst load32_store32_other) (simp_all add: disjoint32_def load32_def)
  moreover have "load32 demo_regs 0x1038 = 0x403abc" unfolding demo_regs_def by (rule load32_store32_same)
  ultimately have "load64 demo_regs 0x1038 = 0x403abc" by (simp add: load64_def)
  then show ?thesis by (simp add: x86_reg_def)
qed

lemma decode_operands32_exact_witness:
  "\<exists>a. decode_operands32 demo_regs 0x1000 [0x78, 0x10] REG32 = Some (MEM_OPERAND, a, 0x1000, 2) \<and> unat a mod 2 ^ 32 = 0x403acc"
proof -
  have f: "modrm_mod 0x78 = 1" "modrm_rm 0x78 = 0" "modrm_reg 0x78 = 7" by (simp_all add: uchar_eq_iff modrm_fields)
  have b: "unat (0x78 :: uchar_t) div 64 = 1" "unat (0x78 :: uchar_t) mod 8 = 0" "x86_disp_len 1 0 s = 1" for s
    by (simp_all add: x86_disp_len_def)
  have x: "x86_operand demo_regs 0x1000 [0x78, 0x10] = (0x403acc, 2)"
    unfolding x86_operand_def Let_def nth_Cons_0 b by (simp add: x86_sext8_def demo_regs_rax)
  have r: "decode_register 0x1000 7 REG32 = 0x1000" by (simp add: decode_register_def o_rdi_def)
  have d: "disp_right (x86_disp_len (unat (1 :: uchar_t)) (unat (0 :: uchar_t)) 0) [0x10]"
    by (simp add: disp_right_def x86_disp_len_def)
  have n: "modrm_mod 0x78 \<noteq> 3" "modrm_rm 0x78 \<noteq> 4" "[0x10 :: uchar_t] \<noteq> []" by (simp_all add: f)
  show ?thesis
    using decode_operands32_exact[OF n, of demo_regs "0x1000" REG32] d unfolding f r x fst_conv snd_conv by blast
qed

text \<open>With a SIB byte the decoder skips the byte after ModRM: it takes the following byte as the SIB byte, and
  the length it finds is one too large.\<close>

lemma decode_operands32_sib:
  assumes "modrm_mod b \<noteq> 3" "modrm_rm b = 4" "modrm_mod b \<noteq> 0 \<or> unat s mod 8 \<noteq> 5"
  shows "\<exists>a. decode_operands32 m gprs (b # s # s' # d # rest) sz
    = Some (MEM_OPERAND, a, decode_register gprs (modrm_reg b) sz, snd (x86_operand m gprs (b # s # s' # d # rest)) + 1)"
proof -
  have "unat (modrm_mod b) < 3" using assms(1) unat_lt8[of b] by (simp add: uchar_eq_iff modrm_fields)
  then have "unat (modrm_mod b) = 0 \<or> unat (modrm_mod b) = 1 \<or> unat (modrm_mod b) = 2" by linarith
  then consider "modrm_mod b = 0" | "modrm_mod b = 1" | "modrm_mod b = 2" by (auto simp: uchar_eq_iff)
  moreover have "unat b mod 8 = 4" using assms(2) by (simp add: uchar_eq_iff modrm_fields)
  ultimately show ?thesis
    by cases (use assms in \<open>simp_all add: decode_operands32_def byte_at_def rm32_base_def add_disp32_def x86_operand_len
        x86_disp_len_def modrm_fields(2)[symmetric]\<close>)
qed

end
