(* ===== verification/V3_Shadow_Fill.thy ===== *)
theory V3_Shadow_Fill
  imports V3_Shadow_Fault
begin

text \<open>
  Demand filling of the shadow tables: an access that the guest's own tables allow succeeds after at most
  two faults, at the host address that backs the guest's translation, and without more rights than the
  guest gave.
\<close>

section \<open>Rights\<close>

lemma access_ok_iff:
  "can_access_entry e ec = PT_ACCESS_OK \<longleftrightarrow> pt_present e \<and> (pf_write ec \<longrightarrow> pt_writable e) \<and> (pf_user ec \<longrightarrow> pt_user_page e)"
  by (auto simp: can_access_entry_def)

lemma not_guest_pf: "guest = PT_ACCESS_OK \<Longrightarrow> \<not> is_guest_pf guest shadow"
  by (simp add: is_guest_pf_def)

text \<open>The flags and the address an access depends on.\<close>

definition same_rights :: "uint_t \<Rightarrow> uint_t \<Rightarrow> bool" where
  "same_rights e e' \<longleftrightarrow> pt_present e' = pt_present e \<and> pt_writable e' = pt_writable e \<and> pt_user_page e' = pt_user_page e
     \<and> pt_base_addr e' = pt_base_addr e"

lemma same_rights_refl [simp]: "same_rights e e"
  by (simp add: same_rights_def)

lemma same_rights_access: "same_rights e e' \<Longrightarrow> can_access_entry e' ec = can_access_entry e ec"
  by (simp add: same_rights_def can_access_entry_def)

lemma same_rights_addr: "same_rights e e' \<Longrightarrow> PTE32_T_ADDR e' = PTE32_T_ADDR e \<and> PDE32_T_ADDR e' = PDE32_T_ADDR e"
  by (simp add: same_rights_def PTE32_T_ADDR_def PDE32_T_ADDR_def)

section \<open>First fault: a new table\<close>

lemma first_fault:
  fixes info :: "'c guest_info" and h :: os_hooks
  defines "m \<equiv> host_mem info" and "pd \<equiv> shd_pd h info"
  assumes s: "setup_ok h off info" and inv: "shadow_inv h info" and fresh: "fresh_page h info page"
    and gpd: "guest_pa_to_host_va h info (guest_cr3 (shdw_pg_state info) AND 0xfffff000) = Some gpd"
    and ga: "can_access_pde32 m gpd fa ec = PT_ACCESS_OK" and nl: "\<not> pde_large_page (load32 m (pde_at gpd fa))"
    and np: "\<not> pt_present (load32 m (pde_at pd fa))"
  obtains m' where "handle_shadow_pagefault32 h ew er page info fa ec = Some (0, info\<lparr>host_mem := m'\<rparr>)"
    "shadow_inv h (info\<lparr>host_mem := m'\<rparr>)"
    "can_access_pde32 m' pd fa ec = PT_ACCESS_OK"
    "\<forall>x. aligned4 x \<and> x \<in> guest_vas h info \<longrightarrow> same_rights (load32 m x) (load32 m' x)"
    "\<not> pde_large_page (load32 m' (pde_at gpd fa))"
    "\<not> pt_present (load32 m' (pte_at (V3_VAddr h (scast (PDE32_T_ADDR (load32 m' (pde_at pd fa))))) fa))"
    "pt_accessed (load32 m' (pde_at gpd fa))"
proof -
  let ?t = "V3_VAddr h page" and ?G = "guest_vas h info"
  let ?m' = "fill_pde h (pde_at pd fa) (pde_at gpd fa) ?t (zero_page ?t m)"
  have d: "direct_map h off" using s by (simp add: setup_ok_def)
  have cr: "V3_PAddr h (CR3_TO_PDE32 (V3_VAddr h) (guest_cr3 (shdw_pg_state info))) = guest_cr3 (shdw_pg_state info) AND 0xfffff000"
    using d by (simp add: direct_map_def V3_PAddr_def V3_VAddr_def CR3_TO_PDE32_def)
  note D = shadow_okD[OF inv[unfolded shadow_inv_def], folded pd_def m_def]
  note sl = slots_separate[OF s gpd cr3_aligned pde_at_slot(2)[of fa] D(1,2) pde_at_slot(2)[of fa], folded pde_at_slot(1)]
  have t: "page_aligned ?t" "?t \<noteq> pd" "page_num ?t \<notin> page_num ` ?G"
    using fresh d by (auto simp: fresh_page_def page_aligned_def direct_map_def V3_VAddr_def unat_mod_add pd_def)
  have r: "handle_shadow_pagefault32 h ew er page info fa ec = Some (0, info\<lparr>host_mem := ?m'\<rparr>)" for ew er
    using gpd ga np access_status(2)[of m pd fa ec]
    unfolding handle_shadow_pagefault32_def Let_def cr m_def[symmetric] shd_pd_def[symmetric] pd_def[symmetric]
    by (simp add: not_guest_pf v3_create_new_shadow_pt32_def m_def)
  have zg: "load32 (zero_page ?t m) x = load32 m x" if "aligned4 x" "x \<in> ?G" for x
  proof -
    have "page_num x \<noteq> page_num ?t" using that(2) t(3) by (metis image_eqI)
    then show ?thesis using zero_page_effect(1)[OF t(1), of m] that(1) by (simp add: same_except_def)
  qed
  note f = fill_pde_effect[OF sl(1-3) refl, where h = h and t = ?t and m = "zero_page ?t m", unfolded zg[OF sl(2,4)]]
  show ?thesis
  proof (rule that[OF r])
    show "shadow_inv h (info\<lparr>host_mem := ?m'\<rparr>)"
      by (rule pagefault32_keeps[OF s inv _ _ fresh r[of "\<lambda>i _ _ _ _. (0, i)" "\<lambda>i _ _ _ _. (0, i)"]])
        (simp_all add: emulator_keeps_def)
    show "can_access_pde32 ?m' pd fa ec = PT_ACCESS_OK"
      using ga f(2,4,5) nl by (simp add: can_access_pde32_def access_ok_iff)
    show "\<not> pde_large_page (load32 ?m' (pde_at gpd fa))" using f(10) nl by simp
    show "pt_accessed (load32 ?m' (pde_at gpd fa))" by (rule f(7))
    show "\<forall>x. aligned4 x \<and> x \<in> ?G \<longrightarrow> same_rights (load32 m x) (load32 ?m' x)"
    proof (intro allI impI, elim conjE)
      fix x assume x: "aligned4 x" "x \<in> ?G"
      show "same_rights (load32 m x) (load32 ?m' x)"
      proof (cases "x = pde_at gpd fa")
        case True
        then show ?thesis using f(8,9,11,12) by (simp add: same_rights_def)
      next
        case False
        have "x \<noteq> pde_at pd fa" using x(2) slot_not_guest[OF D(1,2) pde_at_slot(2)[of fa]] by (auto simp: pde_at_slot(1))
        then show ?thesis using f(1) False x zg[OF x] by (simp add: same_except_def)
      qed
    qed
    have "V3_VAddr h (scast (PDE32_T_ADDR (load32 ?m' (pde_at pd fa)))) = ?t"
      using new_pde(2)[OF d, of page] f(6) fresh by (simp add: fresh_page_def)
    moreover have "load32 ?m' (pte_at ?t fa) = 0"
    proof -
      have "slot ?t (unat (PTE32_INDEX fa)) \<notin> {pde_at pd fa, pde_at gpd fa}"
        using slot_neq[OF t(1) D(1) t(2) pte_at_slot(2)[of fa] pde_at_slot(2)[of fa]]
          slot_not_guest[OF t(1,3) pte_at_slot(2)[of fa]] sl(4) by (auto simp: pde_at_slot(1))
      then show ?thesis unfolding pte_at_slot(1)
        using same_slot[OF f(1) t(1) pte_at_slot(2)] zero_page_effect(2)[OF t(1) pte_at_slot(2)] by simp
    qed
    ultimately show "\<not> pt_present (load32 ?m' (pte_at (V3_VAddr h (scast (PDE32_T_ADDR (load32 ?m' (pde_at pd fa))))) fa))"
      by (simp add: pt_present_def)
  qed
qed

section \<open>Second fault: the entry\<close>

lemma second_fault:
  fixes info :: "'c guest_info" and h :: os_hooks and fa :: addr_t
  defines "m \<equiv> host_mem info" and "pd \<equiv> shd_pd h info"
  defines "spt \<equiv> V3_VAddr h (scast (PDE32_T_ADDR (load32 m (pde_at pd fa))))"
  assumes s: "setup_ok h off info" and inv: "shadow_inv h info"
    and gpd: "guest_pa_to_host_va h info (guest_cr3 (shdw_pg_state info) AND 0xfffff000) = Some gpd"
    and ga: "can_access_pde32 m gpd fa ec = PT_ACCESS_OK" and nl: "\<not> pde_large_page (load32 m (pde_at gpd fa))"
    and gpt: "guest_pa_to_host_va h info (scast (PDE32_T_ADDR (load32 m (pde_at gpd fa)))) = Some gpt"
    and gta: "can_access_pte32 m gpt fa ec = PT_ACCESS_OK"
    and sa: "can_access_pde32 m pd fa ec = PT_ACCESS_OK" and np: "\<not> pt_present (load32 m (pte_at spt fa))"
    and ty: "get_shadow_addr_type info (pte_gpa m gpt fa) = HOST_REGION_PHYSICAL_MEMORY"
    and c: "cached_ptes (shdw_pg_state info) \<noteq> None"
  obtains info' where "handle_shadow_pagefault32 h ew er page info fa ec = Some (0, info')"
    "mem_map info' = mem_map info" "intr_state info' = intr_state info" "shdw_pg_state info' = shdw_pg_state info \<or> shdw_pg_state info' = (shdw_pg_state info)\<lparr>cached_cr3 := 0\<rparr>"
    "can_access_pde32 (host_mem info') pd fa ec = PT_ACCESS_OK" "can_access_pte32 (host_mem info') spt fa ec = PT_ACCESS_OK"
    "load32 (host_mem info') (pde_at pd fa) = load32 m (pde_at pd fa)"
    "pt_base_addr (load32 (host_mem info') (pte_at spt fa)) = PT32_BASE_ADDR (get_shadow_addr info (pte_gpa m gpt fa))"
    "pt_writable (load32 (host_mem info') (pte_at spt fa)) \<longleftrightarrow>
       pt_writable (load32 m (pte_at gpt fa)) \<and> (pt_dirty (load32 m (pte_at gpt fa)) \<or> pf_write ec)"
    "pt_user_page (load32 (host_mem info') (pte_at spt fa)) = pt_user_page (load32 m (pte_at gpt fa))"
    "pt_accessed (load32 (host_mem info') (pte_at gpt fa))"
    "pt_dirty (load32 (host_mem info') (pte_at gpt fa)) \<longleftrightarrow> pt_dirty (load32 m (pte_at gpt fa)) \<or> pf_write ec"
proof -
  let ?i = "unat (PDE32_INDEX fa)"
  have d: "direct_map h off" using s by (simp add: setup_ok_def)
  have cr: "V3_PAddr h (CR3_TO_PDE32 (V3_VAddr h) (guest_cr3 (shdw_pg_state info))) = guest_cr3 (shdw_pg_state info) AND 0xfffff000"
    using d by (simp add: direct_map_def V3_PAddr_def V3_VAddr_def CR3_TO_PDE32_def)
  note D = shadow_okD[OF inv[unfolded shadow_inv_def], folded pd_def m_def]
  have p: "pt_present (sh_pde pd m ?i)" using access_status(5)[OF sa] by (simp add: sh_pde_def pde_at_slot(1))
  have spt: "spt = sh_pt (V3_VAddr h) pd m ?i" by (simp add: spt_def sh_pt_def sh_pde_def pde_at_slot(1))
  note E = D(4-6)[OF pde_at_slot(2) p, folded spt]
  note sl = slots_separate[OF s gpt scast_T_ADDR_aligned pte_at_slot(2)[of fa] E(1,3) pte_at_slot(2)[of fa], folded pte_at_slot(1)]
  obtain b where b: "in_pte_cache info (pte_gpa m gpt fa) = Some b" using c by (auto simp: in_pte_cache_def)
  obtain m' wr where f: "fill_pte (pte_at spt fa) (pte_at gpt fa) (get_shadow_addr info (pte_gpa m gpt fa)) ec b m = (m', wr)"
    by (cases "fill_pte (pte_at spt fa) (pte_at gpt fa) (get_shadow_addr info (pte_gpa m gpt fa)) ec b m")
  let ?info = "drop_cache wr (info\<lparr>host_mem := m'\<rparr>)"
  have "handle_shadow_pte32_fault ew er info fa ec spt gpt = Some (0, ?info)"
    using gta np access_status(1)[of m spt fa ec] ty b f
    unfolding handle_shadow_pte32_fault_def Let_def m_def[symmetric] pte_gpa_def[symmetric]
    by (simp add: not_guest_pf)
  then have r: "handle_shadow_pagefault32 h ew er page info fa ec = Some (0, ?info)"
    using gpd ga nl gpt sa
    unfolding handle_shadow_pagefault32_def Let_def cr m_def[symmetric] shd_pd_def[symmetric] pd_def[symmetric] spt_def[symmetric]
    by (simp add: not_guest_pf)
  note fe = fill_pte_effect[OF sl(1-3) f]
  have hm: "host_mem ?info = m'" by (simp add: drop_cache_def)
  have "pde_at pd fa \<notin> {pte_at spt fa, pte_at gpt fa}"
    using slot_neq[OF E(1) D(1) E(2) pte_at_slot(2)[of fa] pde_at_slot(2)[of fa]] slot_not_guest[OF D(1,2) pde_at_slot(2)[of fa]] sl(4)
    by (auto simp: pde_at_slot(1) pte_at_slot(1))
  then have pde: "load32 m' (pde_at pd fa) = load32 m (pde_at pd fa)"
    unfolding pde_at_slot(1) by (rule same_slot[OF fe(1) D(1) pde_at_slot(2)])
  show ?thesis
    by (rule that[OF r]) (use fe gta sa pde in \<open>auto simp: hm drop_cache_def can_access_pde32_def can_access_pte32_def access_ok_iff\<close>)
qed

lemma host_offset:
  assumes "setup_ok h off info" "guest_pa_to_host_pa info a = Some p"
  shows "unat p mod 4096 = unat a mod 4096"
proof -
  have mo: "map_ok (mem_map info)" using assms(1) by (simp add: setup_ok_def paged_map_def)
  obtain r where r: "r \<in> set (sm_regions (mem_map info))" "p = backing r a"
    using assms(2) guest_pa_to_host_pa_iff[OF mo, of a p] by auto
  then have "region_paged r" using assms(1) by (auto simp: setup_ok_def paged_map_def list_all_iff)
  then show ?thesis by (simp add: r(2) backing_def unat_mod_add unat_mod_diff region_paged_def)
qed

lemma pte_gpa_offset: "unat (pte_gpa m gpt fa) mod 4096 = unat fa mod 4096"
proof -
  let ?e = "load32 m (pte_at gpt fa)"
  have "unat (PTE32_T_ADDR ?e) + unat (PT32_PAGE_OFFSET fa) < 2 ^ 32"
    unfolding unat_T_ADDR unat_PT32_PAGE_OFFSET by (rule base_plus_offset) (use unat_lt32[of ?e] in simp_all)
  then have "unat (PTE32_T_ADDR ?e + PT32_PAGE_OFFSET fa) = unat ?e div 2 ^ 12 * 2 ^ 12 + unat fa mod 2 ^ 12"
    unfolding unat_T_ADDR(2)[symmetric] unat_PT32_PAGE_OFFSET[symmetric] by (simp add: unat_word_ariths)
  then show ?thesis by (simp add: pte_gpa_def unat_ucast_up)
qed

text \<open>The shadow page table that the present shadow directory entry of an address names.\<close>

definition shd_pt :: "os_hooks \<Rightarrow> 'c guest_info \<Rightarrow> addr_t \<Rightarrow> addr_t" where
  "shd_pt h info fa = V3_VAddr h (scast (PDE32_T_ADDR (load32 (host_mem info) (pde_at (shd_pd h info) fa))))"

lemma filled_walk:
  fixes info info2 :: "'c guest_info" and h :: os_hooks and fa :: addr_t
  defines "e \<equiv> load32 (host_mem info2) (pde_at (shd_pd h info) fa)"
  assumes s: "setup_ok h off info" and gpa: "gpa = pte_gpa m gpt fa" "get_shadow_addr_type info gpa = HOST_REGION_PHYSICAL_MEMORY"
    and pd2: "shd_pd h info2 = shd_pd h info"
    and acc: "can_access_pde32 (host_mem info2) (shd_pd h info) fa ec = PT_ACCESS_OK" and good: "pde_good (V3_VAddr h) (shd_pd h info) e"
    and acc2: "can_access_pte32 (host_mem info2) (shd_pt h info2 fa) fa ec = PT_ACCESS_OK"
    and base: "pt_base_addr (load32 (host_mem info2) (pte_at (shd_pt h info2 fa) fa)) = PT32_BASE_ADDR (get_shadow_addr info gpa)"
  shows "x86_walk (phys_mem h info2) (shadow_cr3 (shdw_pg_state info2) AND 0xfffff000) (unat fa) = Some (unat (get_shadow_addr info gpa))"
proof -
  let ?i = "unat (PDE32_INDEX fa)" and ?j = "unat (PTE32_INDEX fa)" and ?p = "get_shadow_addr info gpa" and ?pd = "shd_pd h info"
  have d: "direct_map h off" using s by (simp add: setup_ok_def)
  have e: "sh_pde ?pd (host_mem info2) ?i = e" by (simp add: e_def sh_pde_def pde_at_slot(1))
  have p1: "pt_present e" using access_status(5)[OF acc] by (simp add: e_def)
  have t: "sh_pte (V3_VAddr h) ?pd (host_mem info2) ?i ?j = load32 (host_mem info2) (pte_at (shd_pt h info2 fa) fa)"
    by (simp add: sh_pte_def sh_pt_def e pte_at_slot(1) shd_pt_def pd2 e_def[symmetric])
  have pres: "pt_present (load32 (host_mem info2) (pte_at (shd_pt h info2 fa) fa))"
    using acc2 by (simp add: can_access_pte32_def access_ok_iff)
  have "unat ?p = unat (PT32_BASE_ADDR ?p) * 4096 + unat fa mod 4096"
    using fill_frame(1,2)[OF s gpa(2)] host_offset[OF s fill_frame(1)[OF s gpa(2)]] pte_gpa_offset[of m gpt fa] page_parts[of ?p]
    by (simp add: gpa(1))
  then show ?thesis
    using walk_tables[OF d unat_PDE32_INDEX[of fa] unat_PTE32_INDEX[of fa], of info2] p1 good pres base
    unfolding pd2 e t by simp
qed

section \<open>Properties\<close>

text \<open>C2: An access that the guest's own page tables allow, to a 4 KB page of guest memory that has no shadow
  entry yet, succeeds after two faults: no fault is reported to the guest, the shadow tables then allow the
  access, and the processor translates the address through them to the host address that backs the guest's
  translation. The new entry is writable only if the guest's entry is and the guest's dirty bit is set.\<close>

theorem shadow_fill_progress:
  fixes info :: "'c guest_info" and h :: os_hooks
  assumes s: "setup_ok h off info" and inv: "shadow_inv h info" and fresh: "fresh_page h info page"
    and mode: "mem_mode info = VIRTUAL_MEM" "cpu_mode info = PROTECTED"
    and gpd: "guest_pa_to_host_va h info (guest_cr3 (shdw_pg_state info) AND 0xfffff000) = Some gpd"
    and ga: "can_access_pde32 (host_mem info) gpd fa ec = PT_ACCESS_OK" "\<not> pde_large_page (load32 (host_mem info) (pde_at gpd fa))"
    and gpt: "guest_pa_to_host_va h info (scast (PDE32_T_ADDR (load32 (host_mem info) (pde_at gpd fa)))) = Some gpt"
    and gta: "can_access_pte32 (host_mem info) gpt fa ec = PT_ACCESS_OK"
    and gpa: "gpa = pte_gpa (host_mem info) gpt fa" "get_shadow_addr_type info gpa = HOST_REGION_PHYSICAL_MEMORY"
    and np: "\<not> pt_present (load32 (host_mem info) (pde_at (shd_pd h info) fa))"
    and c: "cached_ptes (shdw_pg_state info) \<noteq> None"
  shows "\<exists>info1 info2. v3_handle_shadow_pagefault h ew er page info fa ec = Some (0, info1)
    \<and> v3_handle_shadow_pagefault h ew er page2 info1 fa ec = Some (0, info2)
    \<and> intr_state info2 = intr_state info
    \<and> can_access_pde32 (host_mem info2) (shd_pd h info2) fa ec = PT_ACCESS_OK
    \<and> can_access_pte32 (host_mem info2) (shd_pt h info2 fa) fa ec = PT_ACCESS_OK
    \<and> (pt_writable (load32 (host_mem info2) (pte_at (shd_pt h info2 fa) fa)) \<longrightarrow>
         pt_writable (load32 (host_mem info) (pte_at gpt fa)) \<and> pt_dirty (load32 (host_mem info2) (pte_at gpt fa)))
    \<and> x86_walk (phys_mem h info2) (shadow_cr3 (shdw_pg_state info2) AND 0xfffff000) (unat fa) = Some (unat (get_shadow_addr info gpa))"
proof -
  let ?pd = "shd_pd h info" and ?m = "host_mem info"
  obtain m1 where m1: "handle_shadow_pagefault32 h ew er page info fa ec = Some (0, info\<lparr>host_mem := m1\<rparr>)"
    "shadow_inv h (info\<lparr>host_mem := m1\<rparr>)" "can_access_pde32 m1 ?pd fa ec = PT_ACCESS_OK"
    "\<forall>x. aligned4 x \<and> x \<in> guest_vas h info \<longrightarrow> same_rights (load32 ?m x) (load32 m1 x)"
    "\<not> pde_large_page (load32 m1 (pde_at gpd fa))"
    "\<not> pt_present (load32 m1 (pte_at (V3_VAddr h (scast (PDE32_T_ADDR (load32 m1 (pde_at ?pd fa))))) fa))"
    by (rule first_fault[OF s inv fresh gpd ga np])
  let ?i1 = "info\<lparr>host_mem := m1\<rparr>"
  let ?spt = "V3_VAddr h (scast (PDE32_T_ADDR (load32 m1 (pde_at ?pd fa))))"
  have mm: "mem_map ?i1 = mem_map info" "shd_pd h ?i1 = ?pd" "host_mem ?i1 = m1" "shdw_pg_state ?i1 = shdw_pg_state info"
    by (simp_all add: shd_pd_def)
  note gc = guest_cong[OF mm(1)]
  have s1: "setup_ok h off ?i1" using s gc(1) by (simp add: setup_ok_def)
  note gd = guest_table(2,3)[OF s gpd cr3_aligned pde_at_slot(2)[of fa], folded pde_at_slot(1)]
  note gt = guest_table(2,3)[OF s gpt scast_T_ADDR_aligned pte_at_slot(2)[of fa], folded pte_at_slot(1)]
  have rd: "same_rights (load32 ?m (pde_at gpd fa)) (load32 m1 (pde_at gpd fa))" using m1(4) gd by blast
  have rt: "same_rights (load32 ?m (pte_at gpt fa)) (load32 m1 (pte_at gpt fa))" using m1(4) gt by blast
  have gpa1: "pte_gpa m1 gpt fa = gpa" using same_rights_addr[OF rt] by (simp add: gpa(1) pte_gpa_def)
  have sh: "get_shadow_addr_type ?i1 gpa = get_shadow_addr_type info gpa" "get_shadow_addr ?i1 gpa = get_shadow_addr info gpa"
    by (simp_all add: get_shadow_addr_type_def get_shadow_addr_def)
  obtain info2 where i2: "handle_shadow_pagefault32 h ew er page2 ?i1 fa ec = Some (0, info2)"
    "mem_map info2 = mem_map ?i1" "intr_state info2 = intr_state ?i1"
    "shdw_pg_state info2 = shdw_pg_state ?i1 \<or> shdw_pg_state info2 = (shdw_pg_state ?i1)\<lparr>cached_cr3 := 0\<rparr>"
    "can_access_pde32 (host_mem info2) ?pd fa ec = PT_ACCESS_OK" "can_access_pte32 (host_mem info2) ?spt fa ec = PT_ACCESS_OK"
    "load32 (host_mem info2) (pde_at ?pd fa) = load32 m1 (pde_at ?pd fa)"
    "pt_base_addr (load32 (host_mem info2) (pte_at ?spt fa)) = PT32_BASE_ADDR (get_shadow_addr info gpa)"
    "pt_writable (load32 (host_mem info2) (pte_at ?spt fa)) \<longleftrightarrow>
       pt_writable (load32 m1 (pte_at gpt fa)) \<and> (pt_dirty (load32 m1 (pte_at gpt fa)) \<or> pf_write ec)"
    "pt_dirty (load32 (host_mem info2) (pte_at gpt fa)) \<longleftrightarrow> pt_dirty (load32 m1 (pte_at gpt fa)) \<or> pf_write ec"
    using second_fault[OF s1 m1(2), where fa = fa and ec = ec and gpd = gpd and gpt = gpt and ew = ew and er = er and page = page2]
      gpd ga(1) gpt gta gpa(2) c m1(3,5,6) same_rights_access[OF rd, of ec] same_rights_access[OF rt, of ec] same_rights_addr[OF rd]
    unfolding mm gc gpa1 sh can_access_pde32_def can_access_pte32_def by metis
  have cr: "shadow_cr3 (shdw_pg_state info2) = shadow_cr3 (shdw_pg_state info)" using i2(4) by auto
  then have pd2: "shd_pd h info2 = ?pd" by (simp add: shd_pd_def)
  have sp: "shd_pt h info2 fa = ?spt" by (simp add: shd_pt_def pd2 i2(7))
  have g0: "pde_good (V3_VAddr h) ?pd (load32 m1 (pde_at ?pd fa))"
    using shadow_okD(3)[OF m1(2)[unfolded shadow_inv_def mm] pde_at_slot(2)[of fa]] access_status(5)[OF m1(3)]
    by (simp add: sh_pde_def pde_at_slot(1))
  have w: "x86_walk (phys_mem h info2) (shadow_cr3 (shdw_pg_state info2) AND 0xfffff000) (unat fa) = Some (unat (get_shadow_addr info gpa))"
    by (rule filled_walk[OF s gpa pd2 i2(5) g0[folded i2(7)] i2(6,8)[folded sp]])
  have "v3_handle_shadow_pagefault h ew er page info fa ec = Some (0, ?i1)"
    "v3_handle_shadow_pagefault h ew er page2 ?i1 fa ec = Some (0, info2)"
    using m1(1) i2(1) mode by (simp_all add: v3_handle_shadow_pagefault_def)
  moreover have "pt_writable (load32 (host_mem info2) (pte_at ?spt fa)) \<longrightarrow>
         pt_writable (load32 ?m (pte_at gpt fa)) \<and> pt_dirty (load32 (host_mem info2) (pte_at gpt fa))"
    using i2(9,10) rt by (simp add: same_rights_def)
  ultimately show ?thesis using i2(3,5,6) w pd2 sp by auto
qed

lemma demo_guest_tables:
  "load32 (host_mem demo_shadow_guest) 0x151004 = 0x2007" "load32 (host_mem demo_shadow_guest) 0x15200c = 0x3007"
  "load32 (host_mem demo_shadow_guest) 0x110004 = 0"
  using demo_shadow_empty[of "0x110000" 1]
  by (simp_all add: demo_shadow_sel mem_simps disjoint32_def slot_def page_aligned_def page_num_def)

lemma shadow_fill_progress_witness:
  "\<exists>info1 info2. v3_handle_shadow_pagefault demo_hooks (\<lambda>i _ _ _ _. (0, i)) (\<lambda>i _ _ _ _. (0, i)) 0x20000 demo_shadow_guest 0x403abc demo_pf
      = Some (0, info1)
    \<and> v3_handle_shadow_pagefault demo_hooks (\<lambda>i _ _ _ _. (0, i)) (\<lambda>i _ _ _ _. (0, i)) 0x30000 info1 0x403abc demo_pf = Some (0, info2)
    \<and> x86_walk (phys_mem demo_hooks info2) (shadow_cr3 (shdw_pg_state info2) AND 0xfffff000) (unat (0x403abc :: addr_t)) = Some 0x53abc"
proof -
  have at: "pde_at 0x151000 0x403abc = 0x151004" "pde_at 0x110000 0x403abc = 0x110004" "pte_at 0x152000 0x403abc = 0x15200c"
    by (simp_all add: pde_at_nat pte_at_nat)
  have t: "PDE32_T_ADDR 0x2007 = 0x2000" "PTE32_T_ADDR 0x3007 = 0x3000" "PT32_PAGE_OFFSET 0x403abc = 0xabc"
    by (simp_all add: word_unat_eq_iff unat_T_ADDR unat_PT32_PAGE_OFFSET)
  have fl: "pt_present 0x2007" "pt_present 0x3007" "\<not> pde_large_page 0x2007" by (simp_all add: entry_flags_nat)
  have g: "guest_pa_to_host_va demo_hooks demo_shadow_guest (guest_cr3 (shdw_pg_state demo_shadow_guest) AND 0xfffff000) = Some 0x151000"
    "can_access_pde32 (host_mem demo_shadow_guest) 0x151000 0x403abc demo_pf = PT_ACCESS_OK"
    "\<not> pde_large_page (load32 (host_mem demo_shadow_guest) (pde_at 0x151000 0x403abc))"
    "guest_pa_to_host_va demo_hooks demo_shadow_guest (scast (PDE32_T_ADDR (load32 (host_mem demo_shadow_guest) (pde_at 0x151000 0x403abc)))) = Some 0x152000"
    "can_access_pte32 (host_mem demo_shadow_guest) 0x152000 0x403abc demo_pf = PT_ACCESS_OK"
    "0x3abc = pte_gpa (host_mem demo_shadow_guest) 0x152000 0x403abc"
    by (simp_all add: demo_shadow_sel(5) demo_shadow_pa demo_guest_pa at t fl demo_guest_tables can_access_pde32_def can_access_pte32_def
        access_ok_iff demo_pf_def pte_gpa_def)
  have sh: "get_shadow_addr_type demo_shadow_guest 0x3abc = HOST_REGION_PHYSICAL_MEMORY" "get_shadow_addr demo_shadow_guest 0x3abc = 0x53abc"
    by (simp_all add: get_shadow_addr_type_def get_shadow_addr_def demo_shadow_sel(1) get_shadow_region_by_addr_def demo_guest_map_def
        demo_region_def init_shadow_region_def)
  have np: "\<not> pt_present (load32 (host_mem demo_shadow_guest) (pde_at (shd_pd demo_hooks demo_shadow_guest) 0x403abc))"
    by (simp add: demo_shadow_sel(7) at demo_guest_tables pt_present_def)
  have c: "cached_ptes (shdw_pg_state demo_shadow_guest) \<noteq> None" by (simp add: demo_shadow_guest_def)
  have "unat (0x53abc :: addr_t) = 0x53abc" by simp
  then show ?thesis
    using shadow_fill_progress[OF demo_setup_ok demo_shadow_inv demo_fresh demo_shadow_sel(2,3) g sh(1) np c,
        of "\<lambda>i _ _ _ _. (0, i)" "\<lambda>i _ _ _ _. (0, i)" "0x30000"]
    unfolding sh(2) by metis
qed

end
