(* ===== verification/V3_Passthrough.thy ===== *)
theory V3_Passthrough
  imports V3_Shadow_Fault
begin

text \<open>
  The direct map: \<open>create_passthrough_pts_32\<close> of \<^verbatim>\<open>vmm_paging.c\<close> builds page tables that map guest-physical
  addresses to the host memory behind them; a guest runs on them while its own paging is off. The
  theorem compares the walk of the processor over these tables with the memory map.
\<close>

section \<open>Construction\<close>

text \<open>The region test of the inner loop. The other region types fall through to the translation.\<close>

definition passthrough_unmapped :: "'c guest_info \<Rightarrow> addr_t \<Rightarrow> bool" where
  "passthrough_unmapped info a =
     (case get_shadow_region_by_addr (mem_map info) a of
        None \<Rightarrow> True
      | Some region \<Rightarrow> host_type region \<in> {HOST_REGION_HOOK, HOST_REGION_UNALLOCATED, HOST_REGION_MEMORY_MAPPED_DEVICE,
          HOST_REGION_REMOTE, HOST_REGION_SWAPPED})"

text \<open>The code assigns every bit-field of an entry: all of them 0, or present, writable, user and the base, which is
  cut to its 20 bits.\<close>

definition passthrough_entry :: "addr_t \<Rightarrow> uint_t" where
  "passthrough_entry base = bf_set 12 20 (ucast base) 7"

text \<open>The loop over the entries of one table: \<open>n\<close> entries from \<open>j\<close> on. The flag is False when the code returns
  NULL; \<open>pte_present\<close> tells whether an entry is present.\<close>

fun passthrough_pt_loop ::
  "'c guest_info \<Rightarrow> addr_t \<Rightarrow> nat \<Rightarrow> nat \<Rightarrow> addr_t \<Rightarrow> bool \<Rightarrow> mem \<Rightarrow> bool \<times> bool \<times> addr_t \<times> mem" where
  "passthrough_pt_loop info pte 0 j current_page_addr pte_present m = (True, pte_present, current_page_addr, m)"
| "passthrough_pt_loop info pte (Suc n) j current_page_addr pte_present m =
     (if passthrough_unmapped info current_page_addr
      then passthrough_pt_loop info pte n (j + 1) (current_page_addr + 4096) pte_present (store32 m (pte + 4 * of_nat j) 0)
      else case guest_pa_to_host_pa info current_page_addr of
             None \<Rightarrow> (False, pte_present, current_page_addr, m)
           | Some haddr \<Rightarrow>
               passthrough_pt_loop info pte n (j + 1) (current_page_addr + 4096) True
                 (store32 m (pte + 4 * of_nat j) (passthrough_entry (drop_bit 12 haddr))))"

text \<open>The loop over the directory. \<open>pages i\<close> is the page that the host allocates for table \<open>i\<close>; the list holds
  the pages that are given back.\<close>

fun passthrough_pd_loop ::
  "os_hooks \<Rightarrow> (nat \<Rightarrow> addr_t) \<Rightarrow> 'c guest_info \<Rightarrow> addr_t \<Rightarrow> nat \<Rightarrow> nat \<Rightarrow> addr_t \<Rightarrow> mem \<Rightarrow> bool \<times> addr_t list \<times> mem" where
  "passthrough_pd_loop h pages info pde 0 i current_page_addr m = (True, [], m)"
| "passthrough_pd_loop h pages info pde (Suc n) i current_page_addr m =
     (let pte = V3_VAddr h (pages i)
      in case passthrough_pt_loop info pte MAX_PTE32_ENTRIES 0 current_page_addr False m of
           (ok, pte_present, current_page_addr, m) \<Rightarrow>
             if \<not> ok then (False, [], m)
             else if \<not> pte_present
             then (case passthrough_pd_loop h pages info pde n (i + 1) current_page_addr (store32 m (pde + 4 * of_nat i) 0) of
                     (ok, freed, m) \<Rightarrow> (ok, V3_PAddr h pte # freed, m))
             else passthrough_pd_loop h pages info pde n (i + 1) current_page_addr
                    (store32 m (pde + 4 * of_nat i) (passthrough_entry (ucast (PAGE_ALIGNED_ADDR (V3_PAddr h pte))))))"

definition create_passthrough_pts_32 ::
  "os_hooks \<Rightarrow> addr_t \<Rightarrow> (nat \<Rightarrow> addr_t) \<Rightarrow> 'c guest_info \<Rightarrow> addr_t \<times> addr_t list \<times> 'c guest_info" where
  "create_passthrough_pts_32 h page pages info =
     (let pde = V3_VAddr h page
      in case passthrough_pd_loop h pages info pde MAX_PDE32_ENTRIES 0 0 (host_mem info) of
           (ok, freed, m) \<Rightarrow> (if ok then pde else 0, freed, info\<lparr>host_mem := m\<rparr>))"

section \<open>The tables\<close>

text \<open>The entry for a guest page, and whether a table of 1024 pages from \<open>a\<close> on has a present entry.\<close>

definition pt_word :: "'c guest_info \<Rightarrow> addr_t \<Rightarrow> uint_t" where
  "pt_word info a = (case guest_pa_to_host_pa info a of None \<Rightarrow> 0 | Some p \<Rightarrow> passthrough_entry (drop_bit 12 p))"

definition table_mapped :: "'c guest_info \<Rightarrow> addr_t \<Rightarrow> bool" where
  "table_mapped info a \<longleftrightarrow> (\<exists>k < 1024. guest_pa_to_host_pa info (a + 4096 * of_nat k) \<noteq> None)"

lemma unmapped_none: "passthrough_unmapped info a \<Longrightarrow> guest_pa_to_host_pa info a = None"
  by (auto simp: passthrough_unmapped_def guest_pa_to_host_pa_region split: option.splits)

lemma passthrough_pt_loop_spec:
  assumes "page_aligned pte" "j + n \<le> 1024" "passthrough_pt_loop info pte n j a pres m = (True, pres', a', m')"
  shows "a' = a + 4096 * of_nat n"
    and "same_except (slot pte ` {j..<j + n}) m m'"
    and "\<forall>k < n. load32 m' (slot pte (j + k)) = pt_word info (a + 4096 * of_nat k)"
    and "pres' \<longleftrightarrow> pres \<or> (\<exists>k < n. guest_pa_to_host_pa info (a + 4096 * of_nat k) \<noteq> None)"
proof -
  have "a' = a + 4096 * of_nat n \<and> same_except (slot pte ` {j..<j + n}) m m'
    \<and> (\<forall>k < n. load32 m' (slot pte (j + k)) = pt_word info (a + 4096 * of_nat k))
    \<and> (pres' \<longleftrightarrow> pres \<or> (\<exists>k < n. guest_pa_to_host_pa info (a + 4096 * of_nat k) \<noteq> None))"
    using assms(2,3)
  proof (induction n arbitrary: j a pres m)
    case 0
    then show ?case by simp
  next
    case (Suc n)
    let ?e = "pt_word info a" and ?p = "guest_pa_to_host_pa info a"
    let ?m = "store32 m (slot pte j) ?e"
    have step: "passthrough_pt_loop info pte n (Suc j) (a + 4096) (pres \<or> ?p \<noteq> None) ?m = (True, pres', a', m')"
      using Suc.prems(2) unmapped_none[of info a]
      by (auto simp: pt_word_def slot_def split: if_splits option.splits)
    have IH: "a' = (a + 4096) + 4096 * of_nat n" "same_except (slot pte ` {Suc j..<Suc j + n}) ?m m'"
      "\<forall>k < n. load32 m' (slot pte (Suc j + k)) = pt_word info ((a + 4096) + 4096 * of_nat k)"
      "pres' \<longleftrightarrow> (pres \<or> ?p \<noteq> None) \<or> (\<exists>k < n. guest_pa_to_host_pa info ((a + 4096) + 4096 * of_nat k) \<noteq> None)"
      using Suc.IH[OF _ step] Suc.prems(1) by auto
    have j: "j < 1024" using Suc.prems(1) by simp
    have al: "aligned4 (slot pte j)" by (rule slot_aligned4[OF assms(1) j])
    have ins: "{j..<j + Suc n} = insert j {Suc j..<Suc j + n}" by auto
    have "same_except (slot pte ` {j..<j + Suc n}) m m'"
      using same_except_trans[OF same_except_store[OF al] IH(2)] unfolding ins image_insert by simp
    moreover have "slot pte j \<notin> slot pte ` {Suc j..<Suc j + n}"
    proof
      assume "slot pte j \<in> slot pte ` {Suc j..<Suc j + n}"
      then obtain l where "slot pte j = slot pte l" "Suc j \<le> l" "l < 1024" using Suc.prems(1) by auto
      then show False using slot_inj[OF assms(1) j, of l] by simp
    qed
    then have "load32 m' (slot pte j) = ?e"
      using same_slot[OF IH(2) assms(1) j] by (simp add: mem_simps)
    then have "load32 m' (slot pte (j + k)) = pt_word info (a + 4096 * of_nat k)" if "k < Suc n" for k
      using that IH(3) by (cases k) (auto simp: algebra_simps)
    moreover have "pres' \<longleftrightarrow> pres \<or> (\<exists>k < Suc n. guest_pa_to_host_pa info (a + 4096 * of_nat k) \<noteq> None)"
      unfolding IH(4) by (auto simp: less_Suc_eq_0_disj algebra_simps)
    ultimately show ?case using IH(1) by (simp add: algebra_simps)
  qed
  then show "a' = a + 4096 * of_nat n"
    and "same_except (slot pte ` {j..<j + n}) m m'"
    and "\<forall>k < n. load32 m' (slot pte (j + k)) = pt_word info (a + 4096 * of_nat k)"
    and "pres' \<longleftrightarrow> pres \<or> (\<exists>k < n. guest_pa_to_host_pa info (a + 4096 * of_nat k) \<noteq> None)"
    by blast+
qed

text \<open>The first guest address of table \<open>i\<close>, and the pages the host may hand out: whole pages outside the
  directory, and a page is not handed out again while it holds a table.\<close>

definition table_base :: "nat \<Rightarrow> addr_t" where
  "table_base i = of_nat (i * 2 ^ 22)"

definition pages_ok :: "os_hooks \<Rightarrow> 'c guest_info \<Rightarrow> addr_t \<Rightarrow> (nat \<Rightarrow> addr_t) \<Rightarrow> bool" where
  "pages_ok h info page pages \<longleftrightarrow> page_aligned (V3_VAddr h page) \<and> V3_VAddr h page \<noteq> 0
     \<and> (\<forall>i < 1024. page_aligned (V3_VAddr h (pages i)) \<and> unat (pages i) < 2 ^ 32 \<and> V3_VAddr h (pages i) \<noteq> V3_VAddr h page)
     \<and> (\<forall>i < 1024. \<forall>k < i. table_mapped info (table_base k) \<longrightarrow> V3_VAddr h (pages i) \<noteq> V3_VAddr h (pages k))"

definition pd_word :: "os_hooks \<Rightarrow> 'c guest_info \<Rightarrow> (nat \<Rightarrow> addr_t) \<Rightarrow> nat \<Rightarrow> uint_t" where
  "pd_word h info pages i = (if table_mapped info (table_base i)
     then passthrough_entry (ucast (PAGE_ALIGNED_ADDR (V3_PAddr h (V3_VAddr h (pages i))))) else 0)"

lemma table_base_Suc: "table_base i + 4096 * of_nat 1024 = table_base (Suc i)"
  by (simp add: table_base_def algebra_simps)

lemma passthrough_table:
  assumes "page_aligned pte" "passthrough_pt_loop info pte MAX_PTE32_ENTRIES 0 (table_base i) False m = (True, pres, a, m')"
  shows "a = table_base (Suc i)" "pres = table_mapped info (table_base i)"
    "same_except {x. page_num x = page_num pte} m m'"
    "j < 1024 \<Longrightarrow> load32 m' (slot pte j) = pt_word info (table_base i + 4096 * of_nat j)"
proof -
  note S = passthrough_pt_loop_spec[OF assms(1) _ assms(2)[unfolded MAX_PTE32_ENTRIES_def]]
  show "a = table_base (Suc i)" using S(1) table_base_Suc by simp
  show "pres = table_mapped info (table_base i)" using S(4) by (simp add: table_mapped_def)
  have "slot pte ` {0..<0 + 1024} \<subseteq> {x. page_num x = page_num pte}" using slot_page[OF assms(1)] by auto
  then show "same_except {x. page_num x = page_num pte} m m'" using S(2) same_except_mono[of "slot pte ` {0..<0 + 1024}"] by simp
  show "j < 1024 \<Longrightarrow> load32 m' (slot pte j) = pt_word info (table_base i + 4096 * of_nat j)" using S(3) by simp
qed

definition later_tables :: "os_hooks \<Rightarrow> (nat \<Rightarrow> addr_t) \<Rightarrow> nat \<Rightarrow> nat \<Rightarrow> addr_t set" where
  "later_tables h pages i n = {x. \<exists>k. i \<le> k \<and> k < i + n \<and> page_num x = page_num (V3_VAddr h (pages k))}"

lemma range_Suc: "i \<le> k \<and> k < i + Suc n \<longleftrightarrow> k = i \<or> Suc i \<le> k \<and> k < Suc i + n"
  by auto

lemma later_tables_Suc:
  "later_tables h pages i (Suc n) = {x. page_num x = page_num (V3_VAddr h (pages i))} \<union> later_tables h pages (Suc i) n"
  unfolding later_tables_def conj_assoc[symmetric] range_Suc by auto

lemma later_tablesE:
  assumes "x \<in> later_tables h pages i n" "i + n \<le> 1024"
  obtains k where "i \<le> k" "k < 1024" "page_num x = page_num (V3_VAddr h (pages k))"
  using assms by (auto simp: later_tables_def)

lemma passthrough_pd_loop_spec:
  assumes pg: "pages_ok h info page pages" and pde: "pde = V3_VAddr h page" and "i + n \<le> 1024"
    and "passthrough_pd_loop h pages info pde n i (table_base i) m = (True, freed, m')"
  shows "same_except (slot pde ` {i..<i + n} \<union> later_tables h pages i n) m m'
    \<and> (\<forall>k. i \<le> k \<and> k < i + n \<longrightarrow> load32 m' (slot pde k) = pd_word h info pages k)
    \<and> (\<forall>k j. i \<le> k \<and> k < i + n \<and> j < 1024 \<and> table_mapped info (table_base k) \<longrightarrow>
         load32 m' (slot (V3_VAddr h (pages k)) j) = pt_word info (table_base k + 4096 * of_nat j))"
  using assms(3,4)
proof (induction n arbitrary: i m freed)
  case 0
  then show ?case by auto
next
  case (Suc n)
  let ?pt = "V3_VAddr h (pages i)" and ?e = "pd_word h info pages i"
  have i: "i < 1024" using Suc.prems(1) by simp
  have P: "page_aligned pde" "page_aligned ?pt" "?pt \<noteq> pde" using pg i by (auto simp: pages_ok_def pde)
  obtain ok pres a m1 where r0: "passthrough_pt_loop info ?pt MAX_PTE32_ENTRIES 0 (table_base i) False m = (ok, pres, a, m1)"
    by (metis prod_cases4)
  have ok using Suc.prems(2) r0 by (simp add: Let_def split: if_splits)
  then have r: "passthrough_pt_loop info ?pt MAX_PTE32_ENTRIES 0 (table_base i) False m = (True, pres, a, m1)" using r0 by simp
  note T = passthrough_table[OF P(2) r]
  let ?m = "store32 m1 (slot pde i) ?e"
  obtain freed' where step: "passthrough_pd_loop h pages info pde n (Suc i) (table_base (Suc i)) ?m = (True, freed', m')"
  proof (cases pres)
    case True
    then show ?thesis using Suc.prems(2) r T(1,2) that by (simp add: Let_def pd_word_def slot_def)
  next
    case False
    then show ?thesis using Suc.prems(2) r T(1,2) that by (simp add: Let_def pd_word_def slot_def split: prod.splits)
  qed
  have IH: "same_except (slot pde ` {Suc i..<Suc i + n} \<union> later_tables h pages (Suc i) n) ?m m'"
    "\<forall>k. Suc i \<le> k \<and> k < Suc i + n \<longrightarrow> load32 m' (slot pde k) = pd_word h info pages k"
    "\<forall>k j. Suc i \<le> k \<and> k < Suc i + n \<and> j < 1024 \<and> table_mapped info (table_base k) \<longrightarrow>
         load32 m' (slot (V3_VAddr h (pages k)) j) = pt_word info (table_base k + 4096 * of_nat j)"
    using Suc.IH[OF _ step] Suc.prems(1) by auto
  have al: "aligned4 (slot pde i)" by (rule slot_aligned4[OF P(1) i])
  have ne: "page_num (V3_VAddr h (pages k)) \<noteq> page_num pde" if "k < 1024" for k
    using pg that P(1) page_aligned_eqI by (metis pages_ok_def pde)
  have pti: "page_num (V3_VAddr h (pages k)) \<noteq> page_num ?pt" if "i < k" "k < 1024" "table_mapped info (table_base i)" for k
    using pg that P(2) page_aligned_eqI unfolding pages_ok_def by metis
  have out: "slot pde k \<notin> later_tables h pages (Suc i) n" if "k < 1024" for k
    using slot_page[OF P(1) that] ne Suc.prems(1) by (auto elim!: later_tablesE)
  have inj: "slot pde i \<notin> slot pde ` {Suc i..<Suc i + n}"
  proof
    assume "slot pde i \<in> slot pde ` {Suc i..<Suc i + n}"
    then obtain l where "slot pde i = slot pde l" "Suc i \<le> l" "l < 1024" using Suc.prems(1) by auto
    then show False using slot_inj[OF P(1) i, of l] by simp
  qed
  have all: "same_except (slot pde ` {i..<i + Suc n} \<union> later_tables h pages i (Suc n)) m m'"
  proof (rule same_except_mono[OF same_except_trans[OF T(3) same_except_trans[OF same_except_store[OF al] IH(1)]]])
    have "{i..<i + Suc n} = insert i {Suc i..<Suc i + n}" by auto
    then show "{x. page_num x = page_num ?pt} \<union> ({slot pde i} \<union> (slot pde ` {Suc i..<Suc i + n} \<union> later_tables h pages (Suc i) n))
      \<subseteq> slot pde ` {i..<i + Suc n} \<union> later_tables h pages i (Suc n)"
      unfolding later_tables_Suc by auto
  qed
  have here: "load32 m' (slot pde i) = ?e"
    using same_slot[OF IH(1) P(1) i] inj out[OF i] by (simp add: mem_simps)
  have tab: "load32 m' (slot ?pt j) = pt_word info (table_base i + 4096 * of_nat j)"
    if j: "j < 1024" and tm: "table_mapped info (table_base i)" for j
  proof -
    have "slot ?pt j \<noteq> slot pde k" if "k < 1024" for k by (rule slot_neq[OF P(2,1,3) j that])
    then have n1: "slot ?pt j \<notin> slot pde ` {Suc i..<Suc i + n}" "slot ?pt j \<noteq> slot pde i"
      using Suc.prems(1) i by (auto simp: image_iff)
    have "slot ?pt j \<notin> later_tables h pages (Suc i) n"
      using slot_page[OF P(2) j] pti[OF _ _ tm] Suc.prems(1) by (auto simp: Suc_le_eq elim!: later_tablesE)
    then have "load32 m' (slot ?pt j) = load32 ?m (slot ?pt j)" using same_slot[OF IH(1) P(2) j] n1(1) by blast
    also have "\<dots> = load32 m1 (slot ?pt j)"
      using same_except_store[OF al, of m1 ?e] slot_aligned4[OF P(2) j] n1(2) by (auto simp: same_except_def)
    finally show ?thesis using T(4)[OF j] by simp
  qed
  have "load32 m' (slot pde k) = pd_word h info pages k" if "i \<le> k" "k < i + Suc n" for k
    using that here IH(2) by (cases "k = i") auto
  moreover have "load32 m' (slot (V3_VAddr h (pages k)) j) = pt_word info (table_base k + 4096 * of_nat j)"
    if "i \<le> k" "k < i + Suc n" "j < 1024" "table_mapped info (table_base k)" for k j
    using that tab IH(3) by (cases "k = i") auto
  ultimately show ?case using all by blast
qed

section \<open>The walk\<close>

lemma entry_facts:
  "odd (unat (passthrough_entry b))" "even (unat (passthrough_entry b) div 2 ^ 7)"
  "unat (passthrough_entry b) div 2 ^ 12 = unat b mod 2 ^ 20"
proof -
  have f: "pt_present 7" "\<not> pde_large_page 7" by (simp_all add: entry_flags_nat)
  have "pt_present (passthrough_entry b)" "\<not> pde_large_page (passthrough_entry b)"
    using f by (simp_all add: passthrough_entry_def put_simps)
  then show "odd (unat (passthrough_entry b))" "even (unat (passthrough_entry b) div 2 ^ 7)"
    unfolding entry_flags_nat by simp_all
  have "unat (passthrough_entry b) div 2 ^ 12 = unat (take_bit 20 (ucast b :: uint_t))"
    unfolding unat_base[symmetric] by (simp add: passthrough_entry_def put_simps)
  also have "\<dots> = unat b mod 2 ^ 20"
    unfolding unsigned_take_bit_eq by (simp add: unsigned_ucast_eq take_bit_eq_mod mod_mod_cancel)
  finally show "unat (passthrough_entry b) div 2 ^ 12 = unat b mod 2 ^ 20" .
qed

lemma guest_pa_page:
  assumes "paged_map (mem_map info)" "page_num a = page_num b"
  shows "guest_pa_to_host_pa info a = map_option (\<lambda>p. p + (a - b)) (guest_pa_to_host_pa info b)"
proof -
  have ok: "map_ok (mem_map info)" using assms(1) by (simp add: paged_map_def)
  have c: "covers r a \<longleftrightarrow> covers r b" if "r \<in> set (sm_regions (mem_map info))" for r
    using assms that covers_page_num[of r] by (auto simp: paged_map_def list_all_iff)
  have "guest_pa_to_host_pa info a = Some q \<longleftrightarrow> guest_pa_to_host_pa info b = Some (q - (a - b))" for q
    unfolding guest_pa_to_host_pa_iff[OF ok] using c by (auto simp: backing_def algebra_simps)
  note iff = this
  show ?thesis
  proof (cases "guest_pa_to_host_pa info b")
    case None
    then show ?thesis using iff by (cases "guest_pa_to_host_pa info a") auto
  next
    case (Some p)
    then show ?thesis using iff[of "p + (a - b)"] by simp
  qed
qed

lemma pages_total:
  assumes "\<forall>r \<in> set (sm_regions (mem_map info)). host_type r \<noteq> HOST_REGION_INVALID" "map_ok (mem_map info)"
    and "\<not> passthrough_unmapped info a"
  shows "guest_pa_to_host_pa info a \<noteq> None"
proof -
  obtain r where r: "get_shadow_region_by_addr (mem_map info) a = Some r" "host_type r \<notin> {HOST_REGION_HOOK, HOST_REGION_UNALLOCATED,
      HOST_REGION_MEMORY_MAPPED_DEVICE, HOST_REGION_REMOTE, HOST_REGION_SWAPPED}"
    using assms(3) by (auto simp: passthrough_unmapped_def split: option.splits)
  moreover have "r \<in> set (sm_regions (mem_map info))"
    using r(1) assms(2) region_at_addr_iff by (simp add: get_shadow_region_by_addr_def map_ok_def)
  then have "host_type r \<noteq> HOST_REGION_INVALID" using assms(1) by blast
  ultimately show ?thesis by (cases "host_type r") (auto simp: guest_pa_to_host_pa_region)
qed

lemma pt_loop_total:
  assumes "\<And>a. \<not> passthrough_unmapped info a \<Longrightarrow> guest_pa_to_host_pa info a \<noteq> None"
  shows "fst (passthrough_pt_loop info pte n j a pres m)"
  by (induction n arbitrary: j a pres m) (use assms in \<open>auto split: option.splits\<close>, metis option.distinct(1))

lemma pd_loop_total:
  assumes "\<And>a. \<not> passthrough_unmapped info a \<Longrightarrow> guest_pa_to_host_pa info a \<noteq> None"
  shows "fst (passthrough_pd_loop h pages info pde n i a m)"
proof (induction n arbitrary: i a m)
  case (Suc n)
  obtain ok pres a' m1 where r: "passthrough_pt_loop info (V3_VAddr h (pages i)) MAX_PTE32_ENTRIES 0 a False m = (ok, pres, a', m1)"
    by (metis prod_cases4)
  have ok using pt_loop_total[OF assms, of "V3_VAddr h (pages i)" MAX_PTE32_ENTRIES 0 a False m] r by simp
  then show ?case using r Suc by (simp add: Let_def split_beta)
qed simp

lemma pt_entry_walk:
  assumes s: "setup_ok h off info" and a: "page_aligned a" and k: "k < 4096"
  shows "(if even (unat (pt_word info a)) then None else Some (unat (pt_word info a) div 2 ^ 12 * 2 ^ 12 + k))
    = map_option unat (guest_pa_to_host_pa info (a + of_nat k))"
proof -
  have pm: "paged_map (mem_map info)" and ok: "map_ok (mem_map info)" using s by (simp_all add: setup_ok_def paged_map_def)
  have "unat (a + of_nat k) = unat a + k" using a k by (intro unat_same_page) (simp add: page_aligned_def)
  then have "page_num (a + of_nat k) = page_num a" using a k by (simp add: page_num_def page_aligned_def div_same_page)
  note pg = guest_pa_page[OF pm this]
  show ?thesis
  proof (cases "guest_pa_to_host_pa info a")
    case None
    then show ?thesis using pg by (simp add: pt_word_def)
  next
    case (Some p)
    obtain r where r: "r \<in> set (sm_regions (mem_map info))" "p = backing r a"
      using Some guest_pa_to_host_pa_iff[OF ok, of a p] by auto
    have "region_paged r" using pm r(1) by (auto simp: paged_map_def list_all_iff)
    then have p: "unat p mod 4096 = 0"
      using a by (simp add: r(2) backing_def unat_mod_add unat_mod_diff region_paged_def page_aligned_def)
    have "unat p < 2 ^ 32" using s Some by (simp add: setup_ok_def)
    then have "unat (drop_bit 12 p) mod 2 ^ 20 * 2 ^ 12 = unat p"
      using p div_mult_mod_eq[of "unat p" 4096]
      by (simp add: unat_drop_bit less_mult_imp_div_less)
    then show ?thesis
      using Some pg unat_same_page[of p k] p k entry_facts(1,3)[of "drop_bit 12 p"] by (simp add: pt_word_def)
  qed
qed

lemma pd_word_table:
  assumes d: "direct_map h off" and pg: "pages_ok h info page pages" and i: "i < 1024" "table_mapped info (table_base i)"
  shows "of_nat (unat (pd_word h info pages i) div 2 ^ 12 * 2 ^ 12) = pages i"
proof -
  have pa: "V3_PAddr h (V3_VAddr h (pages i)) = pages i" using d by (simp add: direct_map_def V3_PAddr_def V3_VAddr_def)
  have "page_aligned (V3_VAddr h (pages i))" and lt: "unat (pages i) < 2 ^ 32" using pg i(1) by (auto simp: pages_ok_def)
  then have al: "unat (pages i) mod 4096 = 0"
    using d unat_mod_add[of off "pages i"] by (simp add: direct_map_def V3_VAddr_def page_aligned_def)
  have "unat (ucast (PAGE_ALIGNED_ADDR (pages i)) :: addr_t) = unat (pages i) div 4096"
  proof -
    have "unat (ucast (pages i) :: uint_t) = unat (pages i)" using lt by (simp add: unsigned_ucast_eq take_bit_eq_mod)
    then have "unat (PAGE_ALIGNED_ADDR (pages i)) = unat (pages i) div 2 ^ 12"
      by (simp only: PAGE_ALIGNED_ADDR_def unat_drop_bit)
    then show ?thesis by (simp add: unat_ucast_up)
  qed
  then have "unat (pd_word h info pages i) div 2 ^ 12 = unat (pages i) div 4096"
    using i(2) lt entry_facts(3)[of "ucast (PAGE_ALIGNED_ADDR (pages i))"] by (simp add: pd_word_def pa less_mult_imp_div_less)
  then have "unat (pd_word h info pages i) div 2 ^ 12 * 2 ^ 12 = unat (pages i)"
    using al div_mult_mod_eq[of "unat (pages i)" 4096] by simp
  then show ?thesis by simp
qed

lemma table_page:
  assumes "x < 2 ^ 32"
  shows "table_base (x div 2 ^ 22 mod 2 ^ 10) + 4096 * of_nat (x div 2 ^ 12 mod 2 ^ 10) = of_nat (x div 4096 * 4096)"
    and "page_aligned (of_nat (x div 4096 * 4096))" "of_nat x = (of_nat (x div 4096 * 4096) + of_nat (x mod 4096) :: addr_t)"
proof -
  have "x div 2 ^ 22 < 2 ^ 10" using assms by (simp add: less_mult_imp_div_less)
  then have "x div 4096 div 1024 mod 1024 = x div 4096 div 1024" "x div 4194304 = x div 4096 div 1024"
    using div_mult2_eq[of x 4096 1024] by simp_all
  then have "x div 2 ^ 22 mod 2 ^ 10 * 2 ^ 22 + 4096 * (x div 2 ^ 12 mod 2 ^ 10) = x div 4096 * 4096"
    using div_mult_mod_eq[of "x div 4096" 1024] by (simp only: power_numeral semiring_norm pow.simps sqr.simps)
  moreover have "table_base (x div 2 ^ 22 mod 2 ^ 10) + 4096 * of_nat (x div 2 ^ 12 mod 2 ^ 10)
    = of_nat (x div 2 ^ 22 mod 2 ^ 10 * 2 ^ 22 + 4096 * (x div 2 ^ 12 mod 2 ^ 10))"
    by (simp only: table_base_def of_nat_add of_nat_mult of_nat_numeral)
  ultimately show "table_base (x div 2 ^ 22 mod 2 ^ 10) + 4096 * of_nat (x div 2 ^ 12 mod 2 ^ 10) = of_nat (x div 4096 * 4096)"
    by (simp only:)
  have "x div 4096 * 4096 < 2 ^ 64" by (rule le_less_trans[OF div_times_less_eq_dividend]) (use assms in simp)
  then show "page_aligned (of_nat (x div 4096 * 4096))" unfolding page_aligned_def by (simp only: unat_of_nat64) simp
  show "of_nat x = (of_nat (x div 4096 * 4096) + of_nat (x mod 4096) :: addr_t)"
    unfolding of_nat_add[symmetric] by simp
qed

section \<open>Properties\<close>

text \<open>C3: The direct map. If every region of the memory map has a valid type, the construction succeeds, and the
  processor translates a 32-bit guest-physical address through the new tables exactly to the host
  address that backs it, and faults on every address that is not backed by memory.\<close>

theorem create_passthrough_pts_32_walk:
  assumes s: "setup_ok h off info" and pg: "pages_ok h info page pages"
    and valid: "\<forall>r \<in> set (sm_regions (mem_map info)). host_type r \<noteq> HOST_REGION_INVALID"
    and x: "x < 2 ^ 32"
  shows "\<exists>freed info'. create_passthrough_pts_32 h page pages info = (V3_VAddr h page, freed, info')
    \<and> x86_walk (phys_mem h info') page x = map_option unat (guest_pa_to_host_pa info (of_nat x))"
proof -
  let ?pd = "V3_VAddr h page" and ?i = "x div 2 ^ 22 mod 2 ^ 10" and ?j = "x div 2 ^ 12 mod 2 ^ 10"
  have d: "direct_map h off" and pm: "paged_map (mem_map info)" and ok: "map_ok (mem_map info)"
    using s by (simp_all add: setup_ok_def paged_map_def)
  obtain freed m where run: "passthrough_pd_loop h pages info ?pd MAX_PDE32_ENTRIES 0 0 (host_mem info) = (True, freed, m)"
    using pd_loop_total[OF pages_total[OF valid ok], of h pages ?pd MAX_PDE32_ENTRIES 0 0 "host_mem info"] by (metis fst_conv prod_cases3)
  let ?info = "info\<lparr>host_mem := m\<rparr>"
  have c: "create_passthrough_pts_32 h page pages info = (?pd, freed, ?info)" by (simp add: create_passthrough_pts_32_def run)
  have S: "load32 m (slot ?pd ?i) = pd_word h info pages ?i"
    "table_mapped info (table_base ?i) \<Longrightarrow> load32 m (slot (V3_VAddr h (pages ?i)) ?j) = pt_word info (table_base ?i + 4096 * of_nat ?j)"
    using passthrough_pd_loop_spec[OF pg refl, of 0 MAX_PDE32_ENTRIES "host_mem info" freed m] run
    by (simp_all add: table_base_def MAX_PDE32_ENTRIES_def)
  let ?a = "of_nat (x div 4096 * 4096) :: addr_t"
  note P = table_page[OF x]
  have pde: "x86_pde (phys_mem h ?info) page x = unat (pd_word h info pages ?i)"
    using d S(1) by (simp add: x86_pde_def load32_phys[OF d] slot_def direct_map_def V3_VAddr_def algebra_simps)
  have "x86_walk (phys_mem h ?info) page x =
    (if even (unat (pt_word info ?a)) then None else Some (unat (pt_word info ?a) div 2 ^ 12 * 2 ^ 12 + x mod 4096))"
  proof (cases "table_mapped info (table_base ?i)")
    case True
    have "odd (unat (pd_word h info pages ?i))" "even (unat (pd_word h info pages ?i) div 2 ^ 7)"
      using True entry_facts(1,2) by (simp_all add: pd_word_def)
    moreover have "load32 (phys_mem h ?info) (pages ?i + 4 * of_nat ?j) = pt_word info ?a"
      using d S(2)[OF True] P(1) by (simp add: load32_phys[OF d] slot_def direct_map_def V3_VAddr_def algebra_simps)
    ultimately show ?thesis
      unfolding x86_walk_def Let_def pde using pd_word_table[OF d pg _ True] by simp
  next
    case False
    then have "guest_pa_to_host_pa info (table_base ?i + 4096 * of_nat ?j) = None" by (auto simp: table_mapped_def)
    then have "guest_pa_to_host_pa info ?a = None" by (simp only: P(1))
    then show ?thesis using False pde by (simp add: x86_walk_def pd_word_def pt_word_def)
  qed
  also have "\<dots> = map_option unat (guest_pa_to_host_pa info (of_nat x))"
    unfolding P(3) by (rule pt_entry_walk[OF s P(2)]) simp
  finally show ?thesis using c by blast
qed

lemma demo_pages_ok: "pages_ok demo_hooks demo_shadow_guest 0x20000 (\<lambda>i. of_nat (0x100000 + i * 4096))"
proof -
  have u: "unat (of_nat (0x100000 + i * 4096) :: addr_t) = 0x100000 + i * 4096" if "i < 1024" for i
    using that by (intro unat_of_nat64) simp
  have v: "unat (of_nat (0x100000 + i * 4096) + 0x100000 :: addr_t) = 0x200000 + i * 4096" if "i < 1024" for i
    using that u[OF that] by (simp only: unat_word_ariths) simp
  show ?thesis
    unfolding pages_ok_def demo_hooks_addr page_aligned_def
  proof (intro conjI allI impI)
    fix i k :: nat assume ik: "i < 1024" "k < i"
    show "of_nat (0x100000 + i * 4096) + 0x100000 \<noteq> (of_nat (0x100000 + k * 4096) + 0x100000 :: addr_t)"
    proof
      assume "of_nat (0x100000 + i * 4096) + 0x100000 = (of_nat (0x100000 + k * 4096) + 0x100000 :: addr_t)"
      then have "0x200000 + i * 4096 = 0x200000 + k * 4096" using ik v[of i, symmetric] v[of k] by (simp only: less_trans)
      then show False using ik by simp
    qed
  next
    fix i :: nat assume i: "i < 1024"
    show "of_nat (0x100000 + i * 4096) + 0x100000 \<noteq> (0x20000 + 0x100000 :: addr_t)"
    proof
      assume "of_nat (0x100000 + i * 4096) + 0x100000 = (0x20000 + 0x100000 :: addr_t)"
      then have "0x200000 + i * 4096 = unat (0x20000 + 0x100000 :: addr_t)" by (simp only: v[OF i, symmetric])
      then show False by simp
    qed
    show "unat (of_nat (0x100000 + i * 4096) + 0x100000 :: addr_t) mod 4096 = 0" unfolding v[OF i] by simp
    show "unat (of_nat (0x100000 + i * 4096) :: addr_t) < 2 ^ 32" unfolding u[OF i] using i by simp
  qed simp_all
qed

lemma create_passthrough_pts_32_walk_witness:
  "\<exists>freed info'. create_passthrough_pts_32 demo_hooks 0x20000 (\<lambda>i. of_nat (0x100000 + i * 4096)) demo_shadow_guest = (0x120000, freed, info')
    \<and> x86_walk (phys_mem demo_hooks info') 0x20000 0x1234 = Some 0x51234"
proof -
  have v: "\<forall>r \<in> set (sm_regions (mem_map demo_shadow_guest)). host_type r \<noteq> HOST_REGION_INVALID"
    by (simp add: demo_shadow_sel demo_guest_map_def demo_region_def init_shadow_region_def)
  have "guest_pa_to_host_pa demo_shadow_guest 0x1234 = Some 0x51234"
    by (simp add: guest_pa_to_host_pa_region demo_shadow_sel get_shadow_region_by_addr_def demo_guest_map_def demo_region_def
        init_shadow_region_def backing_def)
  then show ?thesis
    using create_passthrough_pts_32_walk[OF demo_setup_ok demo_pages_ok v, of "0x1234"] by simp
qed

end
