(* ===== verification/Spec2Isabelle.thy ===== *)
theory Spec2Isabelle
  imports V3_Queue V3_Dev_Mgr V3_PIC V3_Invlpg V3_Shadow_Fill V3_Passthrough
begin

text \<open>
  A verification development for the Palacios virtual machine monitor (\<^verbatim>\<open>src/palacios\<close>).

  \<^bold>\<open>The program.\<close> Palacios is a monitor that is embedded in a host kernel. A guest runs on the
  processor until an exit; the exit handlers then work on one \<open>struct guest_info\<close> that holds the memory
  map of the guest, the shadow page tables, the pending exceptions and interrupts, the hooked I/O ports and
  the emulated devices. Underneath are small container libraries. The development has one theory for each
  part, in the order in which the parts use each other:

  \<^item> \<^verbatim>\<open>V3_Prelude\<close>: C integer types of the 64-bit build as words, C bit-fields, byte-addressed host memory.
  \<^item> \<^verbatim>\<open>V3_List\<close> (\<^verbatim>\<open>vmm_list.h\<close>): doubly linked lists over a store of nodes, with the traversal loop as a
    partial function, so that a list that is not circular does not return.
  \<^item> \<^verbatim>\<open>V3_Queue\<close> (\<^verbatim>\<open>vmm_queue.c\<close>): the generic queue, a refinement of a functional queue.
  \<^item> \<^verbatim>\<open>V3_Hashtable\<close> (\<^verbatim>\<open>vmm_hashtable.c\<close>): the chained hash table and its iterators, a refinement of a finite
    map and of a multiset; the locale \<open>key_table\<close> is what its clients rely on.
  \<^item> \<^verbatim>\<open>V3_Mem\<close> (\<^verbatim>\<open>vmm_mem.c\<close>): the map from guest-physical to host memory and the hooked regions.
  \<^item> \<^verbatim>\<open>V3_IO\<close>, \<^verbatim>\<open>V3_Dev_Mgr\<close> (\<^verbatim>\<open>vmm_io.c\<close>, \<^verbatim>\<open>vmm_dev_mgr.c\<close>, \<^verbatim>\<open>vm_dev.c\<close>): the sorted list of port hooks and the
    devices with the hooks they own.
  \<^item> \<^verbatim>\<open>V3_Intr\<close> (\<^verbatim>\<open>vmm_intr.c\<close>, the end of \<^verbatim>\<open>svm_handler.c\<close>): exceptions, irq hooks and injection at an exit; the
    locale \<open>intr_controller\<close> is the contract of a controller.
  \<^item> \<^verbatim>\<open>V3_PIC\<close> (\<^verbatim>\<open>8259a.c\<close>): the interrupt controller, an instance of that contract.
  \<^item> \<^verbatim>\<open>V3_Paging\<close> (\<^verbatim>\<open>vmm_paging.c\<close>, \<^verbatim>\<open>vmm_paging.h\<close>): page table entries and lookups, against the two-level
    translation of the processor.
  \<^item> \<^verbatim>\<open>V3_Guest\<close>, \<^verbatim>\<open>V3_Guest_Mem\<close> (\<^verbatim>\<open>vm_guest.c\<close>, \<^verbatim>\<open>vm_guest_mem.c\<close>): the guest state, its modes, the translations
    between guest and host addresses and the copies to and from guest memory.
  \<^item> \<^verbatim>\<open>V3_Shadow_Paging\<close> (\<^verbatim>\<open>vmm_shadow_paging.c\<close>): the fault handlers that fill the shadow tables.
    \<^verbatim>\<open>V3_Shadow_Inv\<close> and \<^verbatim>\<open>V3_Shadow_Fault\<close> hold the isolation invariant of these tables and its preservation by
    every fault; \<^verbatim>\<open>V3_Shadow_Fill\<close> shows that an access the guest's tables allow gets its translation.
  \<^item> \<^verbatim>\<open>V3_Passthrough\<close> (\<^verbatim>\<open>vmm_paging.c\<close>): the direct map that a guest runs on while its paging is off.
  \<^item> \<^verbatim>\<open>V3_Decoder\<close> (\<^verbatim>\<open>vmm_decoder.h\<close>, \<^verbatim>\<open>vmm_decoder.c\<close>): the operand decoder against the effective addresses of the
    processor; \<^verbatim>\<open>V3_Invlpg\<close> is the INVLPG intercept of \<^verbatim>\<open>vmm_shadow_paging.c\<close>.

  \<^bold>\<open>Correspondence.\<close> A C structure is a record with the members the modelled code uses, an enumeration is a
  datatype, and a function is a definition with the same name that takes the state and returns the new one
  with the C return value (0 or -1 as an \<open>int\<close>). Words keep their width, so every wrap-around, truncation and
  sign extension of the code is in the model; in particular a bit-field narrower than \<open>int\<close> promotes to a
  signed \<open>int\<close>. \<open>None\<close> stands for undefined behaviour, a failed assertion or a loop that does not
  end. What the host kernel answers (allocated addresses, the address translation \<open>os_hooks\<close>, outcomes of
  allocations) and what the instruction emulator does are arguments. Entries of page tables are read and
  written in one byte-addressed memory, since guest tables and shadow tables live there side by side.

  \<^bold>\<open>Bounds.\<close> No theorem rests on fuel: loops are structural recursions over the lists they traverse,
  \<open>function\<close> with a measure (the page-wise copies), or \<open>partial_function\<close> with a theorem that says when they
  return. Theorems about 32-bit tables name the limits of the code as hypotheses: 2 GB for addresses that
  pass through a signed bit-field, 4 GB for host memory behind 32-bit entries.

  \<^bold>\<open>Not modelled.\<close> The host side (\<^verbatim>\<open>src/geekos\<close>, \<^verbatim>\<open>src/kitten\<close>, with the network stacks lwip and uIP), the guest
  firmware (\<^verbatim>\<open>vmboot\<close>: rombios, vgabios, vmxassist), the XED decoder and its wrapper, the VMX backend and assembly
  are separate programs, third-party libraries or hardware access. Output for debugging has no effect on
  the state. The remaining devices and the dispatch of exits are planned; \<^verbatim>\<open>PROJECT.json\<close> lists them.
\<close>

end
